theory Spec2Isabelle
  imports Complex_Main
begin

section \<open>Python values and errors\<close>

text \<open>
  Every exception the modelled code can raise is a constructor of \<open>error\<close>; a function
  that may raise returns \<open>error + 'a\<close> with \<open>Inl\<close> for the exception.
\<close>

datatype error =
  IndexError | ZeroDivisionError | ValueError | TypeError | AttributeError | OverflowError
| OSError | RecursionError

text \<open>Python list indexing \<^verbatim>\<open>xs[i]\<close>: a negative index counts from the end.\<close>

definition py_get :: "'a list \<Rightarrow> int \<Rightarrow> error + 'a" where
  "py_get xs i =
     (if 0 \<le> i \<and> i < int (length xs) then Inr (xs ! nat i)
      else if i < 0 \<and> - int (length xs) \<le> i then Inr (xs ! nat (int (length xs) + i))
      else Inl IndexError)"

text \<open>\<^verbatim>\<open>str(i)\<close> of an integer: decimal digits, a minus sign for a negative number.\<close>

definition digit_char :: "nat \<Rightarrow> char" where
  "digit_char d = char_of (48 + d)"

fun str_nat :: "nat \<Rightarrow> string" where
  "str_nat n = (if n < 10 then [digit_char n] else str_nat (n div 10) @ [digit_char (n mod 10)])"

declare str_nat.simps [simp del]

definition str_int :: "int \<Rightarrow> string" where
  "str_int i = (if i < 0 then CHR ''-'' # str_nat (nat (- i)) else str_nat (nat i))"

text \<open>A comprehension \<^verbatim>\<open>[f(c) for c in values]\<close> stops at the first element that raises.\<close>

fun map_err :: "('a \<Rightarrow> error + 'b) \<Rightarrow> 'a list \<Rightarrow> error + 'b list" where
  "map_err f [] = Inr []"
| "map_err f (x # xs) =
     (case f x of
        Inl e \<Rightarrow> Inl e
      | Inr y \<Rightarrow> (case map_err f xs of Inl e \<Rightarrow> Inl e | Inr ys \<Rightarrow> Inr (y # ys)))"

section \<open>trees/plots.py: to\_hexadecimal\<close>

text \<open>
  \<^verbatim>\<open>
  def to_hexadecimal(values):
      hex_codes = [str(i) for i in range(10)]
      hex_codes.extend(['a', 'b', 'c', 'd', 'e', 'f'])
      color = [hex_codes[c // 16] + hex_codes[c % 16] for c in values]
      return '#' + ''.join(color)
  \<close>
  \<open>div\<close> and \<open>mod\<close> on \<open>int\<close> round towards minus infinity, as \<^verbatim>\<open>//\<close> and \<^verbatim>\<open>%\<close> do.
\<close>

definition hex_codes :: "string list" where
  "hex_codes = map (\<lambda>i. str_int (int i)) [0..<10] @ [''a'', ''b'', ''c'', ''d'', ''e'', ''f'']"

definition hex_pair :: "int \<Rightarrow> error + string" where
  "hex_pair c =
     (case py_get hex_codes (c div 16) of
        Inl e \<Rightarrow> Inl e
      | Inr hi \<Rightarrow> (case py_get hex_codes (c mod 16) of Inl e \<Rightarrow> Inl e | Inr lo \<Rightarrow> Inr (hi @ lo)))"

definition to_hexadecimal :: "int list \<Rightarrow> error + string" where
  "to_hexadecimal values =
     (case map_err hex_pair values of
        Inl e \<Rightarrow> Inl e
      | Inr color \<Rightarrow> Inr (CHR ''#'' # concat color))"

section \<open>cli/example\_click.py and cli/example\_fire.py: Plotter.scatter\<close>

text \<open>
  Both files hold the same method:
  \<^verbatim>\<open>
  def scatter(self, name: str, *points):
      n = len(points)
      if n % 2 != 0:
          n -= 1
      points = points[:n]
      xs, ys = points[::2], points[1::2]
      f, ax = plt.subplots(1, 1)
      ax.scatter(xs, ys)
      self.save(f, name)
  \<close>
  The model returns the two sequences handed to the plotting backend.
\<close>

text \<open>\<^verbatim>\<open>seq[::2]\<close>: every second element, starting with the first.\<close>

fun step2 :: "'a list \<Rightarrow> 'a list" where
  "step2 [] = []"
| "step2 [x] = [x]"
| "step2 (x # y # zs) = x # step2 zs"

definition scatter :: "string \<Rightarrow> 'a list \<Rightarrow> 'a list \<times> 'a list" where
  "scatter name points =
     (let n = length points;
          n = (if n mod 2 \<noteq> 0 then n - 1 else n);
          points = take n points
      in (step2 points, step2 (drop 1 points)))"

section \<open>Double-precision arithmetic\<close>

text \<open>
  A Python \<^verbatim>\<open>float\<close> (and a NumPy \<^verbatim>\<open>float64\<close>) is an IEEE-754 binary64 number. A finite
  one is modelled by its exact rational value; an arithmetic operation computes the exact
  rational result and rounds it to the nearest binary64 number, ties to the even
  significand (\<open>round_double\<close>). The arithmetic of \<^verbatim>\<open>_color_brew\<close> stays within finite
  numbers, and nothing it computes depends on the sign of a zero, so it is carried out on
  the type \<open>double\<close>; the operations that raise OverflowError in Python (conversion of an
  integer, division of two integers) do so here.

  A float that is formatted, \<open>pyfloat\<close>, is a finite number, the negative zero, an
  infinity or NaN: \<^verbatim>\<open>'%2.2f'\<close> prints \<^verbatim>\<open>-0.00\<close> for the negative zero, which is what
  \<^verbatim>\<open>0 / -5\<close> evaluates to. \<open>Finite 0\<close> is the positive zero.
\<close>

type_synonym double = rat

datatype pyfloat = Finite double | NegZero | PosInf | NegInf | NaN

definition round_half_even :: "rat \<Rightarrow> int" where
  "round_half_even x =
     (let f = \<lfloor>x\<rfloor>; d = x - of_int f
      in if d < 1 / 2 then f else if 1 / 2 < d then f + 1 else if even f then f else f + 1)"

text \<open>
  \<open>bit_length i\<close> is the number of binary digits of a positive integer, as Python's
  \<^verbatim>\<open>int.bit_length\<close>. \<open>ilog2 x\<close> is the exponent \<open>e\<close> with \<open>2 powi e \<le> x < 2 powi (e + 1)\<close>, for \<open>0 < x\<close>.\<close>

function bit_length :: "int \<Rightarrow> int" where
  "bit_length i = (if i \<le> 0 then 0 else 1 + bit_length (i div 2))"
  by pat_completeness auto
termination
  by (relation "measure nat") auto

declare bit_length.simps [simp del]

definition ilog2 :: "rat \<Rightarrow> int" where
  "ilog2 x =
     (let (p, q) = quotient_of x;
          e = bit_length p - bit_length q
      in if 2 powi e \<le> x then e else e - 1)"

text \<open>
  The spacing of binary64 numbers around \<open>x\<close>: 53 significant bits, and a fixed spacing
  of \<open>2 powi (- 1074)\<close> in the subnormal range.
\<close>

definition ulp :: "rat \<Rightarrow> rat" where
  "ulp x = 2 powi (max (ilog2 \<bar>x\<bar>) (- 1022) - 52)"

definition round_double :: "rat \<Rightarrow> double" where
  "round_double x = (if x = 0 then 0 else of_int (round_half_even (x / ulp x)) * ulp x)"

definition overflows :: "rat \<Rightarrow> bool" where
  "overflows x \<longleftrightarrow> 2 ^ 1024 \<le> \<bar>round_double x\<bar>"

definition fadd :: "double \<Rightarrow> double \<Rightarrow> double" where
  "fadd a b = round_double (a + b)"

definition fsub :: "double \<Rightarrow> double \<Rightarrow> double" where
  "fsub a b = round_double (a - b)"

definition fmul :: "double \<Rightarrow> double \<Rightarrow> double" where
  "fmul a b = round_double (a * b)"

definition fdiv :: "double \<Rightarrow> double \<Rightarrow> double" where
  "fdiv a b = round_double (a / b)"

text \<open>\<^verbatim>\<open>a % b\<close> for a positive \<open>b\<close>: the result has the sign of \<open>b\<close>.\<close>

definition fmod :: "double \<Rightarrow> double \<Rightarrow> double" where
  "fmod a b = round_double (a - b * of_int \<lfloor>a / b\<rfloor>)"

text \<open>\<^verbatim>\<open>float(i)\<close>, also applied to an integer operand of a mixed operation.\<close>

definition float_of_int :: "int \<Rightarrow> error + double" where
  "float_of_int i = (if overflows (of_int i) then Inl OverflowError else Inr (round_double (of_int i)))"

text \<open>
  \<^verbatim>\<open>a / b\<close> on two Python integers: the exact quotient, rounded once. A quotient that
  rounds to zero keeps its sign: it is the negative zero when exactly one of \<open>a\<close> and
  \<open>b\<close> is negative.
\<close>

definition int_true_div :: "int \<Rightarrow> int \<Rightarrow> error + pyfloat" where
  "int_true_div a b =
     (if b = 0 then Inl ZeroDivisionError
      else if overflows (of_int a / of_int b) then Inl OverflowError
      else let q = round_double (of_int a / of_int b)
           in Inr (if q = 0 \<and> (a < 0) \<noteq> (b < 0) then NegZero else Finite q))"

text \<open>\<^verbatim>\<open>int(x)\<close> and \<^verbatim>\<open>astype(int)\<close> on a finite float: truncation towards zero.\<close>

definition trunc :: "double \<Rightarrow> int" where
  "trunc x = (if 0 \<le> x then \<lfloor>x\<rfloor> else \<lceil>x\<rceil>)"

text \<open>\<^verbatim>\<open>int(x)\<close> on any float: an infinity raises OverflowError, NaN raises ValueError.\<close>

definition int_of_float :: "pyfloat \<Rightarrow> error + int" where
  "int_of_float v =
     (case v of
        Finite x \<Rightarrow> Inr (trunc x)
      | NegZero \<Rightarrow> Inr 0
      | PosInf \<Rightarrow> Inl OverflowError
      | NegInf \<Rightarrow> Inl OverflowError
      | NaN \<Rightarrow> Inl ValueError)"

text \<open>
  \<^verbatim>\<open>'%2.2f' % x\<close>: the exact value rounded to two decimals, ties to even; the minimum
  width 2 never pads, the result has at least four characters for a finite number.
  \<open>fixed_2f\<close> formats a finite number other than the negative zero.
\<close>

definition fixed_2f :: "double \<Rightarrow> string" where
  "fixed_2f x =
     (let k = nat (round_half_even (\<bar>x\<bar> * 100));
          body = str_nat (k div 100) @ ''.'' @ [digit_char (k mod 100 div 10), digit_char (k mod 10)]
      in if x < 0 then CHR ''-'' # body else body)"

definition format_2f :: "pyfloat \<Rightarrow> string" where
  "format_2f v =
     (case v of
        Finite x \<Rightarrow> fixed_2f x
      | NegZero \<Rightarrow> ''-0.00''
      | PosInf \<Rightarrow> ''inf''
      | NegInf \<Rightarrow> ''-inf''
      | NaN \<Rightarrow> ''nan'')"

section \<open>trees/plots.py: \_color\_brew\<close>

text \<open>
  \<^verbatim>\<open>np.arange(start, stop, step)\<close> with integer bounds and a float step. NumPy takes
  \<^verbatim>\<open>ceil((stop - start) / step)\<close> as the length, the quotient being a rounded double;
  it stores \<^verbatim>\<open>start\<close> and \<^verbatim>\<open>start + step\<close>, and fills element \<open>i \<ge> 2\<close> with
  \<^verbatim>\<open>start + i * delta\<close> where \<^verbatim>\<open>delta\<close> is the difference of the first two elements.
  An array of \<open>2 ^ 60\<close> or more 8-byte elements exceeds the largest size NumPy accepts,
  which is a ValueError. Whether a shorter array can be allocated depends on the machine
  and not on the arguments: memory is taken to suffice, where NumPy raises MemoryError on
  a machine that cannot provide it.
\<close>

definition arange :: "int \<Rightarrow> int \<Rightarrow> double \<Rightarrow> error + double list" where
  "arange start stop step =
     (if step = 0 then Inl ZeroDivisionError
      else
        let len = nat \<lceil>fdiv (of_int (stop - start)) step\<rceil>;
            next = fadd (of_int start) step;
            delta = fsub next (of_int start)
        in if 2 ^ 60 \<le> len then Inl ValueError
           else Inr (map (\<lambda>i. if i = 0 then of_int start
                               else if i = 1 then next
                               else fadd (of_int start) (fmul (of_nat i) delta)) [0..<len]))"

text \<open>
  \<^verbatim>\<open>
  def _color_brew(n):
      color_list = []
      s, v = 0.75, 0.9
      c = s * v
      m = v - c
      for h in np.arange(25, 385, 360. / n).astype(int):
          h_bar = h / 60.
          x = c * (1 - abs((h_bar % 2) - 1))
          rgb = [(c, x, 0), (x, c, 0), (0, c, x), (0, x, c), (x, 0, c), (c, 0, x), (c, x, 0)]
          r, g, b = rgb[int(h_bar)]
          rgb = [(int(255 * (r + m))), (int(255 * (g + m))), (int(255 * (b + m)))]
          color_list.append(rgb)
      return color_list
  \<close>
  \<open>hue_rgb\<close> is the body of the loop.
\<close>

definition hue_rgb :: "double \<Rightarrow> double \<Rightarrow> int \<Rightarrow> error + int list" where
  "hue_rgb c m h =
     (let h_bar = fdiv (of_int h) 60;
          x = fmul c (fsub 1 \<bar>fsub (fmod h_bar 2) 1\<bar>);
          rgb = [(c, x, 0), (x, c, 0), (0, c, x), (0, x, c), (x, 0, c), (c, 0, x), (c, x, 0)]
      in case py_get rgb (trunc h_bar) of
           Inl e \<Rightarrow> Inl e
         | Inr (r, g, b) \<Rightarrow>
             Inr [trunc (fmul 255 (fadd r m)), trunc (fmul 255 (fadd g m)), trunc (fmul 255 (fadd b m))])"

definition color_brew :: "int \<Rightarrow> error + int list list" where
  "color_brew n =
     (let s = round_double (75 / 100); v = round_double (9 / 10);
          c = fmul s v;
          m = fsub v c
      in case float_of_int n of
           Inl e \<Rightarrow> Inl e
         | Inr nf \<Rightarrow>
             if nf = 0 then Inl ZeroDivisionError
             else (case arange 25 385 (fdiv 360 nf) of
                     Inl e \<Rightarrow> Inl e
                   | Inr hs \<Rightarrow> map_err (hue_rgb c m) (map trunc hs)))"

section \<open>trees/plots.py: the tree and the random node identifiers\<close>

text \<open>
  A tree node carries \<^verbatim>\<open>is_leaf\<close>, \<^verbatim>\<open>feature\<close>, \<^verbatim>\<open>value\<close>, \<^verbatim>\<open>gini\<close>, \<^verbatim>\<open>counts\<close>,
  \<^verbatim>\<open>left\<close> and \<^verbatim>\<open>right\<close>. The field \<^verbatim>\<open>value\<close> (here \<open>node_val\<close>) holds a class index in
  a leaf and a threshold in an internal node. \<^verbatim>\<open>counts\<close> is a \<^verbatim>\<open>Counter\<close>: an
  insertion-ordered dictionary from class index to number of samples, here an association
  list. An absent child is \<open>None\<close>. The Gini impurity and the threshold are floats.
\<close>

datatype node_value = ClassIndex int | Threshold pyfloat

datatype node =
  Node (is_leaf: bool) (feature: int) (node_val: node_value) (gini: pyfloat)
       (counts: "(int \<times> int) list") (left: "node option") (right: "node option")

text \<open>
  \<^verbatim>\<open>counts.most_common(1)\<close> is \<^verbatim>\<open>heapq.nlargest(1, items, key=count)\<close>: the empty list for
  an empty counter, otherwise the item \<^verbatim>\<open>max\<close> returns, which is the first one of
  maximal count in insertion order.
\<close>

fun max_by_count :: "int \<times> int \<Rightarrow> (int \<times> int) list \<Rightarrow> int \<times> int" where
  "max_by_count best [] = best"
| "max_by_count best (kv # rest) = max_by_count (if snd best < snd kv then kv else best) rest"

definition most_common1 :: "(int \<times> int) list \<Rightarrow> (int \<times> int) list" where
  "most_common1 cs = (case cs of [] \<Rightarrow> [] | kv # rest \<Rightarrow> [max_by_count kv rest])"

text \<open>The unpacking \<^verbatim>\<open>[(a, b)] = seq\<close> raises ValueError unless \<^verbatim>\<open>seq\<close> has one element.\<close>

definition unpack1 :: "'a list \<Rightarrow> error + 'a" where
  "unpack1 xs = (case xs of [x] \<Rightarrow> Inr x | _ \<Rightarrow> Inl ValueError)"

text \<open>
  \<^verbatim>\<open>
  def node_id(size=20, chars=digits):
      return ''.join([random.choice(chars) for _ in range(size)])
  \<close>
  The process-wide random generator is the sequence of numbers it is going to draw;
  \<^verbatim>\<open>random.choice(seq)\<close> takes the next one, reduced below \<^verbatim>\<open>len(seq)\<close>.
\<close>

type_synonym rng = "nat \<Rightarrow> nat"

definition digits :: string where
  "digits = ''0123456789''"

definition choice :: "'a list \<Rightarrow> rng \<Rightarrow> 'a \<times> rng" where
  "choice seq g = (seq ! (g 0 mod length seq), \<lambda>i. g (Suc i))"

fun node_id :: "nat \<Rightarrow> string \<Rightarrow> rng \<Rightarrow> string \<times> rng" where
  "node_id 0 chars g = ([], g)"
| "node_id (Suc sz) chars g =
     (let (c, g1) = choice chars g; (cs, g2) = node_id sz chars g1 in (c # cs, g2))"

section \<open>trees/plots.py: create\_graph\<close>

text \<open>
  The output stream is the list of chunks written to it so far. A chunk remembers which
  format string of \<^verbatim>\<open>create\<close> produced it; \<open>chunk_text\<close> is the text the
  \<^verbatim>\<open>write\<close> call receives.
  \<^verbatim>\<open>
  '%s [label="%s", fillcolor="%s"];\n' % (uid, label, color)
  '%s -> %s [label=%s, labeldistance=2.5, labelangle=45];\n' % (uid, child_uid, 'yes' or 'no')
  \<close>
\<close>

datatype chunk =
  Text string
| NodeStmt string string string
| EdgeStmt string string string

fun chunk_text :: "chunk \<Rightarrow> string" where
  "chunk_text (Text t) = t"
| "chunk_text (NodeStmt uid label color) =
     uid @ '' [label=\"'' @ label @ ''\", fillcolor=\"'' @ color @ ''\"];\<newline>''"
| "chunk_text (EdgeStmt uid child lbl) =
     uid @ '' -> '' @ child @ '' [label='' @ lbl @ '', labeldistance=2.5, labelangle=45];\<newline>''"

definition getvalue_text :: "chunk list \<Rightarrow> string" where
  "getvalue_text cs = concat (map chunk_text cs)"

text \<open>\<^verbatim>\<open>sep.join(parts)\<close>\<close>

fun join :: "string \<Rightarrow> string list \<Rightarrow> string" where
  "join sep [] = []"
| "join sep [x] = x"
| "join sep (x # y # ys) = x @ sep @ join sep (y # ys)"

text \<open>
  \<^verbatim>\<open>
  def node_to_str(node):
      if node.is_leaf:
          return class_names[node.value]
      else:
          name = feature_names[node.feature]
          total = sum(node.counts.values())
          [(category, num_of_samples)] = node.counts.most_common(1)
          ratio = num_of_samples / total
          lines = [
              'samples: %s' % total,
              'gini: %2.2f' % node.gini,
              'ratio: %2.2f' % ratio,
              '%s <= %2.2f' % (name, node.value)]
          return '\n'.join(lines)
  \<close>
  The closures \<^verbatim>\<open>node_to_str\<close>, \<^verbatim>\<open>get_node_color\<close> and \<^verbatim>\<open>create\<close> read
  \<^verbatim>\<open>feature_names\<close>, \<^verbatim>\<open>class_names\<close> and \<^verbatim>\<open>colors\<close> of the enclosing call; here they are
  parameters. A float where a list index is expected is a TypeError; an integer
  threshold is converted to a float by the format.
\<close>

definition threshold_float :: "node_value \<Rightarrow> error + pyfloat" where
  "threshold_float v =
     (case v of
        Threshold t \<Rightarrow> Inr t
      | ClassIndex i \<Rightarrow> (case float_of_int i of Inl e \<Rightarrow> Inl e | Inr x \<Rightarrow> Inr (Finite x)))"

definition node_to_str :: "string list \<Rightarrow> string list \<Rightarrow> node \<Rightarrow> error + string" where
  "node_to_str feature_names class_names node =
     (if is_leaf node then
        (case node_val node of
           ClassIndex i \<Rightarrow> py_get class_names i
         | Threshold t \<Rightarrow> Inl TypeError)
      else
        (case py_get feature_names (feature node) of
           Inl e \<Rightarrow> Inl e
         | Inr name \<Rightarrow>
             let total = sum_list (map snd (counts node))
             in (case unpack1 (most_common1 (counts node)) of
                   Inl e \<Rightarrow> Inl e
                 | Inr (category, num_of_samples) \<Rightarrow>
                     (case int_true_div num_of_samples total of
                        Inl e \<Rightarrow> Inl e
                      | Inr ratio \<Rightarrow>
                          (case threshold_float (node_val node) of
                             Inl e \<Rightarrow> Inl e
                           | Inr t \<Rightarrow>
                               Inr (join ''\<newline>''
                                     [''samples: '' @ str_int total,
                                      ''gini: '' @ format_2f (gini node),
                                      ''ratio: '' @ format_2f ratio,
                                      name @ '' <= '' @ format_2f t]))))))"

text \<open>
  \<^verbatim>\<open>
  def get_node_color(node):
      if node.is_leaf:
          return to_hexadecimal(colors[node.value])
      else:
          [(cls, count)] = node.counts.most_common(1)
          total = sum(node.counts.values())
          rgb = colors[cls]
          alpha = int(255 * count / total)
          rgba = rgb + [alpha]
          return to_hexadecimal(rgba)
  \<close>
\<close>

definition get_node_color :: "int list list \<Rightarrow> node \<Rightarrow> error + string" where
  "get_node_color colors node =
     (if is_leaf node then
        (case node_val node of
           ClassIndex i \<Rightarrow>
             (case py_get colors i of Inl e \<Rightarrow> Inl e | Inr rgb \<Rightarrow> to_hexadecimal rgb)
         | Threshold t \<Rightarrow> Inl TypeError)
      else
        (case unpack1 (most_common1 (counts node)) of
           Inl e \<Rightarrow> Inl e
         | Inr (cls, count) \<Rightarrow>
             let total = sum_list (map snd (counts node))
             in (case py_get colors cls of
                   Inl e \<Rightarrow> Inl e
                 | Inr rgb \<Rightarrow>
                     (case int_true_div (255 * count) total of
                        Inl e \<Rightarrow> Inl e
                      | Inr q \<Rightarrow>
                          (case int_of_float q of
                             Inl e \<Rightarrow> Inl e
                           | Inr alpha \<Rightarrow> to_hexadecimal (rgb @ [alpha]))))))"

text \<open>
  \<^verbatim>\<open>
  def create(node, file):
      uid = node_id()
      label = node_to_str(node)
      color = get_node_color(node)
      file.write('%s [label="%s", fillcolor="%s"];\n' % (uid, label, color))
      if not node.is_leaf:
          edge = '%s -> %s [label=%s, labeldistance=2.5, labelangle=45];\n'
          if node.left is not None:
              l_uid = create(node.left, file)
              file.write(edge % (uid, l_uid, 'yes'))
          if node.right is not None:
              r_uid = create(node.right, file)
              file.write(edge % (uid, r_uid, 'no'))
      return uid
  \<close>
  The state threaded through \<^verbatim>\<open>create\<close> is what has been written to \<^verbatim>\<open>file\<close> and the
  random generator; an exception leaves both as they are at the point where it is raised.

  \<^verbatim>\<open>create\<close> calls itself once per level of the tree, and the interpreter bounds the
  depth of nested calls. The last argument of \<open>create\<close> is the number of nested calls of
  \<^verbatim>\<open>create\<close> this bound still admits, the calls each of them makes to its helpers
  included. A call beyond the bound raises RecursionError before an identifier is drawn
  or anything is written: it fails on entry, or inside \<^verbatim>\<open>node_id\<close>, the first and deepest
  of the helper calls, before \<^verbatim>\<open>random.choice\<close> has drawn.
\<close>

record run_state =
  written :: "chunk list"
  random :: rng

definition file_write :: "chunk \<Rightarrow> run_state \<Rightarrow> run_state" where
  "file_write c s = s\<lparr>written := written s @ [c]\<rparr>"

text \<open>
  \<open>emit_edge\<close> is what follows a recursive call: when the call has returned the child's
  identifier, the edge statement is written; when it has raised, the exception goes on.
\<close>

definition emit_edge ::
  "string \<Rightarrow> string \<Rightarrow> (error + string) \<times> run_state \<Rightarrow> (error + string) \<times> run_state" where
  "emit_edge uid lbl res =
     (case res of
        (Inl e, s) \<Rightarrow> (Inl e, s)
      | (Inr child_uid, s) \<Rightarrow> (Inr uid, file_write (EdgeStmt uid child_uid lbl) s))"

fun create :: "string list \<Rightarrow> string list \<Rightarrow> int list list \<Rightarrow> node \<Rightarrow> run_state \<Rightarrow> nat
                \<Rightarrow> (error + string) \<times> run_state" where
  "create feature_names class_names colors node s 0 = (Inl RecursionError, s)"
| "create feature_names class_names colors (Node leaf feat v gi cnts l r) s (Suc depth) =
     (let node = Node leaf feat v gi cnts l r;
          (uid, g) = node_id 20 digits (random s);
          s = s\<lparr>random := g\<rparr>
      in case node_to_str feature_names class_names node of
           Inl e \<Rightarrow> (Inl e, s)
         | Inr label \<Rightarrow>
            (case get_node_color colors node of
               Inl e \<Rightarrow> (Inl e, s)
             | Inr color \<Rightarrow>
                 let s = file_write (NodeStmt uid label color) s
                 in if leaf then (Inr uid, s)
                    else
                      (case (case l of
                               None \<Rightarrow> (Inr uid, s)
                             | Some lnode \<Rightarrow>
                                 emit_edge uid ''yes''
                                   (create feature_names class_names colors lnode s depth)) of
                         (Inl e, s) \<Rightarrow> (Inl e, s)
                       | (Inr _, s) \<Rightarrow>
                           (case r of
                              None \<Rightarrow> (Inr uid, s)
                            | Some rnode \<Rightarrow>
                                emit_edge uid ''no''
                                  (create feature_names class_names colors rnode s depth)))))"

text \<open>
  \<^verbatim>\<open>
  def create_graph(tree, feature_names, class_names, output_file=None):
      styling = {'shape': 'box', 'style': 'filled, rounded', 'color': 'black'}
      n_colors = len(class_names)
      colors = _color_brew(n_colors)
      ...
      opened_file = False
      try:
          if output_file is None:
              fp = StringIO()
          else:
              fp = open(output_file, 'w', encoding='utf-8')
              opened_file = True
          styles = ['%s="%s"' % (k, v) for k, v in styling.items()]
          fp.write('digraph Tree {\n')
          fp.write('node [%s];\n' % ', '.join(styles))
          create(tree, fp)
          fp.write('}')
          return fp.getvalue()
      finally:
          if opened_file:
              fp.close()
  \<close>
  The file system tells of every path whether it holds no file, a file with its text,
  or cannot be opened for writing (a missing directory, a directory of that name, no
  permission). Opening a path for writing raises OSError in the last case, before
  \<^verbatim>\<open>opened_file\<close> is set, and creates or truncates the file otherwise; closing the file,
  which the \<^verbatim>\<open>finally\<close> clause does on every way out, leaves in it all that was written. An
  \<^verbatim>\<open>io.StringIO\<close> has the method \<^verbatim>\<open>getvalue\<close>; the object \<^verbatim>\<open>open\<close> returns has no such
  attribute. The function is \<open>create_graph_py\<close> here: the name \<open>create_graph\<close> is taken
  by the graph of the recursive function \<open>create\<close>. Its last argument is the number of
  nested calls of \<^verbatim>\<open>create\<close> the interpreter admits at the point of the call.
\<close>

datatype file_entry = NoFile | File string | NotWritable

type_synonym file_system = "string \<Rightarrow> file_entry"

definition open_w :: "string \<Rightarrow> file_system \<Rightarrow> error + file_system" where
  "open_w path fs = (case fs path of NotWritable \<Rightarrow> Inl OSError | _ \<Rightarrow> Inr (fs(path := File [])))"

datatype stream = StringIO | TextIOWrapper string

definition getvalue :: "stream \<Rightarrow> chunk list \<Rightarrow> error + string" where
  "getvalue fp cs = (case fp of StringIO \<Rightarrow> Inr (getvalue_text cs) | TextIOWrapper path \<Rightarrow> Inl AttributeError)"

definition close :: "stream \<Rightarrow> chunk list \<Rightarrow> file_system \<Rightarrow> file_system" where
  "close fp cs fs = (case fp of StringIO \<Rightarrow> fs | TextIOWrapper path \<Rightarrow> fs(path := File (getvalue_text cs)))"

definition styling :: "(string \<times> string) list" where
  "styling = [(''shape'', ''box''), (''style'', ''filled, rounded''), (''color'', ''black'')]"

definition create_graph_py ::
  "node \<Rightarrow> string list \<Rightarrow> string list \<Rightarrow> string option \<Rightarrow> rng \<Rightarrow> file_system \<Rightarrow> nat
     \<Rightarrow> (error + string) \<times> rng \<times> file_system" where
  "create_graph_py tree feature_names class_names output_file g fs depth =
     (case color_brew (int (length class_names)) of
        Inl e \<Rightarrow> (Inl e, g, fs)
      | Inr colors \<Rightarrow>
          (case (case output_file of
                   None \<Rightarrow> Inr (StringIO, fs)
                 | Some path \<Rightarrow>
                     (case open_w path fs of
                        Inl e \<Rightarrow> Inl e
                      | Inr fs \<Rightarrow> Inr (TextIOWrapper path, fs))) of
             Inl e \<Rightarrow> (Inl e, g, fs)
           | Inr (fp, fs) \<Rightarrow>
               let styles = map (\<lambda>(k, v). k @ ''=\"'' @ v @ ''\"'') styling;
                   s = \<lparr>written = [], random = g\<rparr>;
                   s = file_write (Text ''digraph Tree {\<newline>'') s;
                   s = file_write (Text (''node ['' @ join '', '' styles @ ''];\<newline>'')) s
               in (case create feature_names class_names colors tree s depth of
                     (Inl e, s) \<Rightarrow> (Inl e, random s, close fp (written s) fs)
                   | (Inr uid, s) \<Rightarrow>
                       let s = file_write (Text ''}'') s
                       in (getvalue fp (written s), random s, close fp (written s) fs))))"

section \<open>Reference definitions for the hexadecimal digits\<close>

text \<open>
  The specification speaks of the lowercase hexadecimal digit of a value below 16;
  \<open>spec_hex_digit\<close> is that digit, written independently of \<open>hex_codes\<close>.
\<close>

definition spec_hex_digit :: "nat \<Rightarrow> char" where
  "spec_hex_digit d = ''0123456789abcdef'' ! d"

section \<open>Reference definitions for the tree renderer\<close>

text \<open>
  The majority class of a counter, in the specification's words: the first item, in
  insertion order, whose count no other item exceeds.
\<close>

definition spec_majority :: "(int \<times> int) list \<Rightarrow> int \<times> int" where
  "spec_majority cs = hd (filter (\<lambda>kv. list_all (\<lambda>kv'. snd kv' \<le> snd kv) cs) cs)"

text \<open>
  The ratio the specification speaks of, as a float: the quotient of two integers rounded
  to the nearest double, the negative zero when it rounds to zero and exactly one of the
  two integers is negative.
\<close>

definition quotient_float :: "int \<Rightarrow> int \<Rightarrow> pyfloat" where
  "quotient_float a b =
     (let q = round_double (of_int a / of_int b)
      in if q = 0 \<and> (a < 0) \<noteq> (b < 0) then NegZero else Finite q)"


text \<open>
  What two runs of the renderer are compared on: the written statements with the random
  identifiers blanked, and the label and fill colour of every node statement in the order
  of emission. Two outcomes are the same when both return or both raise the same
  exception, and the statements written agree up to the identifiers.
\<close>

fun erase_uid :: "chunk \<Rightarrow> chunk" where
  "erase_uid (Text t) = Text t"
| "erase_uid (NodeStmt uid label color) = NodeStmt [] label color"
| "erase_uid (EdgeStmt uid child lbl) = EdgeStmt [] [] lbl"

fun node_label_color :: "chunk \<Rightarrow> (string \<times> string) option" where
  "node_label_color (NodeStmt uid label color) = Some (label, color)"
| "node_label_color _ = None"

definition labels_colors :: "chunk list \<Rightarrow> (string \<times> string) list" where
  "labels_colors cs = List.map_filter node_label_color cs"

definition same_outcome :: "(error + string) \<times> run_state \<Rightarrow> (error + string) \<times> run_state \<Rightarrow> bool" where
  "same_outcome r1 r2 \<longleftrightarrow>
     map_sum id (\<lambda>_. ()) (fst r1) = map_sum id (\<lambda>_. ()) (fst r2)
     \<and> map erase_uid (written (snd r1)) = map erase_uid (written (snd r2))"



fun edge_labels :: "node \<Rightarrow> string list" where
  "edge_labels (Node leaf feat v gi cnts l r) =
     (if leaf then []
      else (case l of None \<Rightarrow> [] | Some lc \<Rightarrow> edge_labels lc @ [''yes''])
         @ (case r of None \<Rightarrow> [] | Some rc \<Rightarrow> edge_labels rc @ [''no'']))"

section \<open>Properties of to\_hexadecimal\<close>

lemma hex_codes_eval: "hex_codes = map (\<lambda>c. [c]) ''0123456789abcdef''"
  by code_simp

lemma lt16_cases: "(n::nat) < 16 \<Longrightarrow> n \<in> {0,1,2,3,4,5,6,7,8,9,10,11,12,13,14,15}"
  by simp arith

lemma hex_codes_nth: "n < 16 \<Longrightarrow> hex_codes ! n = [spec_hex_digit n]"
  using lt16_cases[of n] by (auto simp: hex_codes_eval spec_hex_digit_def)

lemma length_hex_codes: "length hex_codes = 16"
  by (simp add: hex_codes_eval)

lemma py_get_hex: "0 \<le> i \<Longrightarrow> i < 16 \<Longrightarrow> py_get hex_codes i = Inr [spec_hex_digit (nat i)]"
  using hex_codes_nth[of "nat i"] by (simp add: py_get_def length_hex_codes)

lemma py_get_Inr_iff:
  "(\<exists>x. py_get xs i = Inr x) \<longleftrightarrow> - int (length xs) \<le> i \<and> i < int (length xs)"
  by (auto simp: py_get_def)

lemma py_get_Inl: "py_get xs i = Inl e \<Longrightarrow> e = IndexError"
  by (auto simp: py_get_def split: if_splits)

lemma hex_pair_range:
  assumes "0 \<le> c" "c \<le> 255"
  shows "hex_pair c = Inr [spec_hex_digit (nat (c div 16)), spec_hex_digit (nat (c mod 16))]"
proof -
  have "0 \<le> c div 16" "c div 16 < 16" using assms by auto
  moreover have "0 \<le> c mod 16" "c mod 16 < 16" by auto
  ultimately show ?thesis by (simp add: hex_pair_def py_get_hex)
qed

lemma hex_pair_Inl: "hex_pair c = Inl e \<Longrightarrow> e = IndexError"
  by (auto simp: hex_pair_def split: sum.splits dest: py_get_Inl)

lemma hex_pair_fails_iff: "hex_pair c = Inl IndexError \<longleftrightarrow> c < -256 \<or> 255 < c"
proof -
  have lo: "\<exists>x. py_get hex_codes (c mod 16) = Inr x"
    unfolding py_get_Inr_iff length_hex_codes by simp
  have "(\<exists>x. py_get hex_codes (c div 16) = Inr x) \<longleftrightarrow> -256 \<le> c \<and> c \<le> 255"
    unfolding py_get_Inr_iff length_hex_codes by auto
  with lo show ?thesis
    by (auto simp: hex_pair_def split: sum.splits dest: py_get_Inl)
qed

lemma map_err_all_Inr:
  "(\<And>x. x \<in> set xs \<Longrightarrow> f x = Inr (g x)) \<Longrightarrow> map_err f xs = Inr (map g xs)"
  by (induction xs) auto

lemma map_err_Inl_iff: "(\<exists>e. map_err f xs = Inl e) \<longleftrightarrow> (\<exists>x\<in>set xs. \<exists>e. f x = Inl e)"
  by (induction xs) (auto split: sum.splits)

lemma map_err_Inl_elem: "map_err f xs = Inl e \<Longrightarrow> \<exists>x\<in>set xs. f x = Inl e"
  by (induction xs) (auto split: sum.splits)

lemma map_err_length: "map_err f xs = Inr ys \<Longrightarrow> length ys = length xs"
  by (induction xs arbitrary: ys) (auto split: sum.splits)

lemma to_hexadecimal_in_range:
  assumes "\<forall>c\<in>set vs. 0 \<le> c \<and> c \<le> 255"
  shows "to_hexadecimal vs =
           Inr (CHR ''#'' # concat (map (\<lambda>c. [spec_hex_digit (nat (c div 16)),
                                               spec_hex_digit (nat (c mod 16))]) vs))"
proof -
  have "map_err hex_pair vs =
          Inr (map (\<lambda>c. [spec_hex_digit (nat (c div 16)), spec_hex_digit (nat (c mod 16))]) vs)"
    using assms by (intro map_err_all_Inr hex_pair_range) auto
  then show ?thesis by (simp add: to_hexadecimal_def)
qed

lemma hex_pair_wrapped:
  assumes "- 256 \<le> c" "c \<le> 255"
  shows "hex_pair c = Inr [spec_hex_digit (nat (c mod 256 div 16)), spec_hex_digit (nat (c mod 16))]"
proof (cases "0 \<le> c")
  case True
  then have "c mod 256 = c" using assms by simp
  then show ?thesis using hex_pair_range[OF True assms(2)] by simp
next
  case False
  then have "(c + 256) mod 256 = c + 256" using assms(1) by (intro mod_pos_pos_trivial) auto
  then have m: "c mod 256 = c + 256" by simp
  have d: "(c + 256) div 16 = c div 16 + 16" by simp
  have q: "- 16 \<le> c div 16" "c div 16 < 0" using assms(1) False by auto
  have n: "nat (16 + c div 16) < 16" using q by simp
  have hi: "py_get hex_codes (c div 16) = Inr [spec_hex_digit (nat (16 + c div 16))]"
    using q hex_codes_nth[OF n] by (simp add: py_get_def length_hex_codes)
  have "0 \<le> c mod 16" "c mod 16 < 16" by auto
  then have lo: "py_get hex_codes (c mod 16) = Inr [spec_hex_digit (nat (c mod 16))]"
    by (rule py_get_hex)
  show ?thesis
    unfolding m d by (simp add: hex_pair_def hi lo add.commute)
qed

lemma to_hexadecimal_wrapped:
  assumes "\<forall>c\<in>set vs. - 256 \<le> c \<and> c \<le> 255"
  shows "to_hexadecimal vs =
           Inr (CHR ''#'' # concat (map (\<lambda>c. [spec_hex_digit (nat (c mod 256 div 16)),
                                               spec_hex_digit (nat (c mod 16))]) vs))"
proof -
  have "map_err hex_pair vs =
          Inr (map (\<lambda>c. [spec_hex_digit (nat (c mod 256 div 16)), spec_hex_digit (nat (c mod 16))]) vs)"
    using assms by (intro map_err_all_Inr hex_pair_wrapped) auto
  then show ?thesis by (simp add: to_hexadecimal_def)
qed

lemma to_hexadecimal_Inl_iff:
  "to_hexadecimal vs = Inl IndexError \<longleftrightarrow> (\<exists>c\<in>set vs. c < - 256 \<or> 255 < c)"
proof
  assume "to_hexadecimal vs = Inl IndexError"
  then have "map_err hex_pair vs = Inl IndexError"
    by (auto simp: to_hexadecimal_def split: sum.splits)
  then obtain c where "c \<in> set vs" "hex_pair c = Inl IndexError"
    using map_err_Inl_elem by blast
  then show "\<exists>c\<in>set vs. c < - 256 \<or> 255 < c"
    using hex_pair_fails_iff by blast
next
  assume "\<exists>c\<in>set vs. c < - 256 \<or> 255 < c"
  then obtain c where "c \<in> set vs" "hex_pair c = Inl IndexError"
    using hex_pair_fails_iff by blast
  then have "\<exists>e. map_err hex_pair vs = Inl e"
    unfolding map_err_Inl_iff by blast
  then obtain e where e: "map_err hex_pair vs = Inl e" by blast
  then obtain c' where "c' \<in> set vs" "hex_pair c' = Inl e" using map_err_Inl_elem by blast
  then have "e = IndexError" using hex_pair_Inl by blast
  with e show "to_hexadecimal vs = Inl IndexError"
    by (simp add: to_hexadecimal_def)
qed

lemma to_hexadecimal_Inr_iff:
  "(\<exists>s. to_hexadecimal vs = Inr s) \<longleftrightarrow> (\<forall>c\<in>set vs. - 256 \<le> c \<and> c \<le> 255)"
proof
  assume "\<exists>s. to_hexadecimal vs = Inr s"
  then have "to_hexadecimal vs \<noteq> Inl IndexError" by auto
  then have "\<not> (\<exists>c\<in>set vs. c < - 256 \<or> 255 < c)" unfolding to_hexadecimal_Inl_iff .
  then show "\<forall>c\<in>set vs. - 256 \<le> c \<and> c \<le> 255" by (simp add: not_less)
next
  assume "\<forall>c\<in>set vs. - 256 \<le> c \<and> c \<le> 255"
  then show "\<exists>s. to_hexadecimal vs = Inr s" using to_hexadecimal_wrapped by blast
qed



text \<open>
  Claim C8. For channel values that all lie in 0..255, \<open>to_hexadecimal\<close> returns the
  marker \<open>#\<close> followed by two lowercase hexadecimal digits per channel, the digits of
  the value divided by 16 and of its remainder; black is \<open>#000000\<close>, white is
  \<open>#ffffff\<close>, and four channels give eight digits, the last two those of the alpha value.
\<close>

theorem to_hexadecimal_two_digits:
  "((\<forall>c\<in>set values. 0 \<le> c \<and> c \<le> 255) \<longrightarrow>
      to_hexadecimal values =
        Inr (CHR ''#'' # concat (map (\<lambda>c. [spec_hex_digit (nat (c div 16)),
                                            spec_hex_digit (nat (c mod 16))]) values)))
   \<and> to_hexadecimal [0, 0, 0] = Inr ''#000000''
   \<and> to_hexadecimal [255, 255, 255] = Inr ''#ffffff''
   \<and> ((\<forall>c\<in>set [r, g, b, a]. 0 \<le> c \<and> c \<le> 255) \<longrightarrow>
        (\<exists>s. to_hexadecimal [r, g, b, a] = Inr s \<and> length s = 9 \<and>
             drop 7 s = [spec_hex_digit (nat (a div 16)), spec_hex_digit (nat (a mod 16))]))"
proof -
  have e0: "to_hexadecimal [0, 0, 0] = Inr ''#000000''"
    using to_hexadecimal_in_range[of "[0, 0, 0]"] by (simp add: spec_hex_digit_def)
  have e1: "to_hexadecimal [255, 255, 255] = Inr ''#ffffff''"
    using to_hexadecimal_in_range[of "[255, 255, 255]"] by (simp add: spec_hex_digit_def)
  have e2: "\<exists>s. to_hexadecimal [r, g, b, a] = Inr s \<and> length s = 9 \<and>
             drop 7 s = [spec_hex_digit (nat (a div 16)), spec_hex_digit (nat (a mod 16))]"
    if "\<forall>c\<in>set [r, g, b, a]. 0 \<le> c \<and> c \<le> 255"
    using to_hexadecimal_in_range[OF that] by simp
  from to_hexadecimal_in_range[of "values"] e0 e1 e2 show ?thesis by blast
qed

theorem to_hexadecimal_two_digits_witness:
  "list_all (\<lambda>c. 0 \<le> c \<and> c \<le> 255) [229, 129, 57, 128::int]
   \<and> to_hexadecimal [229, 129, 57, 128] = Inr ''#e5813980''"
  using to_hexadecimal_two_digits[of "[229, 129, 57, 128]" 229 129 57 128]
  by (simp add: spec_hex_digit_def)

section \<open>Properties of Plotter.scatter\<close>

lemma length_step2: "length (step2 xs) = (length xs + 1) div 2"
  by (induction xs rule: step2.induct) auto

lemma step2_nth: "i < (length xs + 1) div 2 \<Longrightarrow> step2 xs ! i = xs ! (2 * i)"
proof (induction xs arbitrary: i rule: step2.induct)
  case (3 x y zs)
  then show ?case by (cases i) auto
qed auto

lemma step2_eq_map: "step2 xs = map (\<lambda>i. xs ! (2 * i)) [0..<(length xs + 1) div 2]"
  by (rule nth_equalityI) (auto simp: length_step2 step2_nth)

lemma scatter_eq:
  "scatter name points =
     (map (\<lambda>i. points ! (2 * i)) [0..<length points div 2],
      map (\<lambda>i. points ! (2 * i + 1)) [0..<length points div 2])"
proof -
  let ?n = "length points"
  let ?m = "if ?n mod 2 \<noteq> 0 then ?n - 1 else ?n"
  have m: "?m = 2 * (?n div 2)" by presburger
  have m_le: "?m \<le> ?n" by simp
  have l1: "length (take ?m points) = 2 * (?n div 2)" using m m_le by simp
  have xs: "step2 (take ?m points) = map (\<lambda>i. points ! (2 * i)) [0..<?n div 2]"
    unfolding step2_eq_map l1 by (rule nth_equalityI) (auto simp: m)
  have l2: "length (drop 1 (take ?m points)) = 2 * (?n div 2) - 1" using l1 by simp
  have h: "(2 * (?n div 2) - 1 + 1) div 2 = ?n div 2" by presburger
  have ys: "step2 (drop 1 (take ?m points)) = map (\<lambda>i. points ! (2 * i + 1)) [0..<?n div 2]"
  proof (rule nth_equalityI)
    show "length (step2 (drop 1 (take ?m points))) =
          length (map (\<lambda>i. points ! (2 * i + 1)) [0..<?n div 2])"
      by (simp only: length_step2 l2 h length_map length_upt diff_zero)
  next
    fix i assume "i < length (step2 (drop 1 (take ?m points)))"
    then have i: "i < ?n div 2" by (simp only: length_step2 l2 h)
    then have j: "2 * i + 1 < 2 * (?n div 2)" by simp
    have "step2 (drop 1 (take ?m points)) ! i = drop 1 (take ?m points) ! (2 * i)"
      using i by (intro step2_nth) (simp only: l2 h)
    also have "\<dots> = take ?m points ! (2 * i + 1)"
      using j l1 by simp
    also have "\<dots> = points ! (2 * i + 1)"
      using j by (simp only: m nth_take)
    finally show "step2 (drop 1 (take ?m points)) ! i =
                  map (\<lambda>i. points ! (2 * i + 1)) [0..<?n div 2] ! i"
      using i by simp
  qed
  show ?thesis unfolding scatter_def Let_def xs ys ..
qed

text \<open>
  Claim C9. The two sequences \<open>scatter\<close> hands to the backend are the elements at the
  even and at the odd positions of the first \<open>2 * (length points div 2)\<close> points, so
  they have the same length; for an odd number of points the result is that of the
  sequence without its last value.
\<close>

theorem scatter_pairs:
  "fst (scatter name points) = map (\<lambda>i. points ! (2 * i)) [0..<length points div 2]
   \<and> snd (scatter name points) = map (\<lambda>i. points ! (2 * i + 1)) [0..<length points div 2]
   \<and> length (fst (scatter name points)) = length (snd (scatter name points))
   \<and> (odd (length points) \<longrightarrow> scatter name points = scatter name (butlast points))"
proof -
  have "scatter name points = scatter name (butlast points)" if "odd (length points)"
  proof -
    have d: "(length points - 1) div 2 = length points div 2" using that by presburger
    have "points ! (2 * i) = butlast points ! (2 * i)" and
         "points ! (2 * i + 1) = butlast points ! (2 * i + 1)" if "i < length points div 2" for i
      using that \<open>odd (length points)\<close> by (auto simp: nth_butlast elim!: oddE)
    then show ?thesis unfolding scatter_eq length_butlast d by (auto intro!: map_cong)
  qed
  then show ?thesis by (simp add: scatter_eq)
qed

theorem scatter_pairs_witness:
  "odd (length [1, 2, 3, 4, 5::int]) \<and> scatter ''out'' [1, 2, 3, 4, 5::int] = ([1, 3], [2, 4])
   \<and> scatter ''out'' (butlast [1, 2, 3, 4, 5::int]) = ([1, 3], [2, 4])"
  using scatter_pairs[of "''out''" "[1, 2, 3, 4, 5::int]"] by (simp add: scatter_def)

section \<open>Properties of the double-precision arithmetic\<close>

lemma bit_length_bounds:
  "0 < i \<Longrightarrow> 1 \<le> bit_length i \<and> 2 ^ nat (bit_length i - 1) \<le> i \<and> i < 2 ^ nat (bit_length i)"
proof (induction i rule: bit_length.induct)
  case (1 i)
  show ?case
  proof (cases "i = 1")
    case True
    then show ?thesis by (simp add: bit_length.simps[of 1] bit_length.simps[of 0])
  next
    case False
    with 1 have h: "0 < i div 2" by simp
    with 1 have IH: "1 \<le> bit_length (i div 2)" "2 ^ nat (bit_length (i div 2) - 1) \<le> i div 2"
      "i div 2 < 2 ^ nat (bit_length (i div 2))" by auto
    have bl: "bit_length i = 1 + bit_length (i div 2)"
      using 1(2) by (subst bit_length.simps) simp
    have n: "nat (bit_length i - 1) = Suc (nat (bit_length (i div 2) - 1))"
      "nat (bit_length i) = Suc (nat (bit_length (i div 2)))"
      using IH(1) bl by auto
    have d: "2 * (i div 2) \<le> i" "i < 2 * (i div 2) + 2" by presburger+
    have "2 * 2 ^ nat (bit_length (i div 2) - 1) \<le> i" using IH(2) d(1) by linarith
    moreover have "i < 2 * 2 ^ nat (bit_length (i div 2))" using IH(3) d(2) by linarith
    ultimately show ?thesis unfolding n using IH(1) bl by simp
  qed
qed

lemma powi_nat: "0 \<le> e \<Longrightarrow> (2::rat) powi e = 2 ^ nat e"
  by (simp add: power_int_def)

lemma bit_length_powi:
  assumes "0 < i"
  shows "(2::rat) powi (bit_length i - 1) \<le> of_int i" "of_int i < (2::rat) powi (bit_length i)"
proof -
  from bit_length_bounds[OF assms] have b: "1 \<le> bit_length i" "2 ^ nat (bit_length i - 1) \<le> i"
    "i < 2 ^ nat (bit_length i)" by auto
  have "(2::rat) powi (bit_length i - 1) = of_int (2 ^ nat (bit_length i - 1))"
    using b(1) by (simp add: powi_nat)
  also have "\<dots> \<le> of_int i" using b(2) by (simp only: of_int_le_iff)
  finally show "(2::rat) powi (bit_length i - 1) \<le> of_int i" .
  have "(of_int i :: rat) < of_int (2 ^ nat (bit_length i))" using b(3) by (simp only: of_int_less_iff)
  also have "\<dots> = 2 powi (bit_length i)" using b(1) by (simp add: powi_nat)
  finally show "of_int i < (2::rat) powi (bit_length i)" .
qed

lemma powi_pos [simp]: "0 < (2::rat) powi e"
  by (simp add: power_int_def)

lemma powi_Suc: "(2::rat) powi (e + 1) = 2 * 2 powi e"
  by (simp add: power_int_add)

lemma powi_pred: "(2::rat) powi (e - 1) = 2 powi e / 2"
  by (simp add: power_int_diff)

lemma ilog2_bounds:
  assumes "0 < x"
  shows "2 powi (ilog2 x) \<le> x" "x < 2 powi (ilog2 x + 1)"
proof -
  obtain p q where pq: "quotient_of x = (p, q)" by (cases "quotient_of x")
  then have q: "0 < q" and x: "x = of_int p / of_int q"
    using quotient_of_denom_pos quotient_of_div by auto
  have p: "0 < p" using assms q x by (simp add: zero_less_divide_iff)
  let ?e = "bit_length p - bit_length q"
  note bp = bit_length_powi[OF p] and bq = bit_length_powi[OF q]
  have qr: "(0::rat) < of_int q" using q by simp
  have up: "x < 2 powi (?e + 1)"
  proof -
    have "x < 2 powi (bit_length p) / of_int q" unfolding x using bp(2) qr by (simp add: divide_strict_right_mono)
    also have "\<dots> \<le> 2 powi (bit_length p) / 2 powi (bit_length q - 1)"
      using bq(1) by (intro divide_left_mono) (auto intro: mult_pos_pos qr)
    also have "\<dots> = 2 powi (?e + 1)" by (simp add: power_int_diff power_int_add)
    finally show ?thesis .
  qed
  have lo: "2 powi (?e - 1) \<le> x"
  proof -
    have "(2::rat) powi (?e - 1) = 2 powi (bit_length p - 1) / 2 powi (bit_length q)"
      by (simp add: power_int_diff)
    also have "\<dots> \<le> of_int p / 2 powi (bit_length q)"
      using bp(1) by (simp add: divide_right_mono)
    also have "\<dots> \<le> of_int p / of_int q"
      using bq(2) p qr by (intro divide_left_mono) (auto intro: mult_pos_pos)
    finally show ?thesis unfolding x .
  qed
  show "2 powi (ilog2 x) \<le> x" using lo by (simp add: ilog2_def pq Let_def)
  show "x < 2 powi (ilog2 x + 1)" using up by (auto simp: ilog2_def pq not_le Let_def)
qed

lemma powi_mono: "a \<le> b \<Longrightarrow> (2::rat) powi a \<le> 2 powi b"
  by (rule power_int_increasing) auto

lemma powi_less_cancel: "(2::rat) powi a < 2 powi b \<Longrightarrow> a < b"
  using powi_mono[of b a] by (cases "a < b") auto

lemma ilog2_unique:
  assumes "2 powi e \<le> x" "x < 2 powi (e + 1)"
  shows "ilog2 x = e"
proof -
  have x: "0 < x" using assms(1) powi_pos[of e] by linarith
  note b = ilog2_bounds[OF x]
  have "2 powi e < (2::rat) powi (ilog2 x + 1)" using assms(1) b(2) by linarith
  then have 1: "e < ilog2 x + 1" by (rule powi_less_cancel)
  have "2 powi (ilog2 x) < (2::rat) powi (e + 1)" using assms(2) b(1) by linarith
  then have 2: "ilog2 x < e + 1" by (rule powi_less_cancel)
  from 1 2 show ?thesis by simp
qed

lemma round_half_even_bounds:
  "of_int (round_half_even y) \<le> y + 1 / 2" "y - 1 / 2 \<le> of_int (round_half_even y)"
  unfolding round_half_even_def Let_def by (auto; linarith)+

lemma round_half_even_ge: "of_int k \<le> y \<Longrightarrow> k \<le> round_half_even y"
  unfolding round_half_even_def Let_def by (auto simp: le_floor_iff; linarith)

lemma round_half_even_le: "y \<le> of_int k \<Longrightarrow> round_half_even y \<le> k"
  unfolding round_half_even_def Let_def
  by (auto simp: floor_le_iff; linarith)

lemma round_half_even_of_int [simp]: "round_half_even (of_int k) = k"
  by (simp add: round_half_even_def)

lemma ulp_pos [simp]: "0 < ulp x"
  by (simp add: ulp_def)

lemma ulp_nonzero [simp]: "ulp x \<noteq> 0"
  using ulp_pos[of x] by (simp del: ulp_pos)

lemma round_double_error: "\<bar>round_double x - x\<bar> \<le> ulp x / 2"
proof (cases "x = 0")
  case True
  then show ?thesis by (simp add: round_double_def less_imp_le)
next
  case False
  let ?u = "ulp x"
  have u: "0 < ?u" by simp
  have "\<bar>of_int (round_half_even (x / ?u)) - x / ?u\<bar> \<le> 1 / 2"
    using round_half_even_bounds[of "x / ?u"] by linarith
  then have "\<bar>of_int (round_half_even (x / ?u)) - x / ?u\<bar> * ?u \<le> 1 / 2 * ?u"
    using less_imp_le[OF u] by (rule mult_right_mono)
  moreover have "\<bar>of_int (round_half_even (x / ?u)) - x / ?u\<bar> * ?u = \<bar>round_double x - x\<bar>"
  proof -
    have "\<bar>of_int (round_half_even (x / ?u)) - x / ?u\<bar> * ?u
          = \<bar>(of_int (round_half_even (x / ?u)) - x / ?u) * ?u\<bar>"
      using u by (simp add: abs_mult abs_of_pos)
    also have "(of_int (round_half_even (x / ?u)) - x / ?u) * ?u = round_double x - x"
      using u False by (simp add: round_double_def left_diff_distrib)
    finally show ?thesis .
  qed
  ultimately show ?thesis by simp
qed

lemma round_double_ge_multiple:
  assumes "of_int k * ulp x \<le> x"
  shows "of_int k * ulp x \<le> round_double x"
proof (cases "x = 0")
  case True
  with assms show ?thesis by (simp add: round_double_def)
next
  case False
  have "of_int k \<le> x / ulp x" using assms by (simp add: pos_le_divide_eq)
  then have "k \<le> round_half_even (x / ulp x)" by (rule round_half_even_ge)
  then have "(of_int k :: rat) \<le> of_int (round_half_even (x / ulp x))" by (simp only: of_int_le_iff)
  then show ?thesis using False by (simp add: round_double_def mult_right_mono less_imp_le)
qed

lemma round_double_le_multiple:
  assumes "x \<le> of_int k * ulp x"
  shows "round_double x \<le> of_int k * ulp x"
proof (cases "x = 0")
  case True
  with assms show ?thesis by (simp add: round_double_def)
next
  case False
  have "x / ulp x \<le> of_int k" using assms by (simp add: pos_divide_le_eq)
  then have "round_half_even (x / ulp x) \<le> k" by (rule round_half_even_le)
  then have "(of_int (round_half_even (x / ulp x)) :: rat) \<le> of_int k" by (simp only: of_int_le_iff)
  then show ?thesis using False by (simp add: round_double_def mult_right_mono less_imp_le)
qed

lemma round_double_nonneg: "0 \<le> x \<Longrightarrow> 0 \<le> round_double x"
  using round_double_ge_multiple[of 0 x] by simp

lemma ilog2_le_52:
  assumes "0 < x" "x < 2 ^ 53"
  shows "ilog2 x \<le> 52"
proof -
  have "2 powi (ilog2 x) < (2::rat) powi 53"
    using ilog2_bounds(1)[OF assms(1)] assms(2) by (simp add: powi_nat)
  then have "ilog2 x < 53" by (rule powi_less_cancel)
  then show ?thesis by simp
qed

lemma ulp_inverse_int:
  assumes "x \<noteq> 0" "\<bar>x\<bar> < 2 ^ 53"
  shows "\<exists>N::int. 0 < N \<and> ulp x * of_int N = 1"
proof -
  let ?e = "max (ilog2 \<bar>x\<bar>) (- 1022)"
  have "ilog2 \<bar>x\<bar> \<le> 52" using assms by (intro ilog2_le_52) auto
  then have e: "?e \<le> 52" by simp
  have "ulp x * 2 powi (52 - ?e) = 2 powi ((?e - 52) + (52 - ?e))"
    unfolding ulp_def by (subst power_int_add) auto
  also have "\<dots> = 1" by simp
  finally have "ulp x * of_int (2 ^ nat (52 - ?e)) = 1" using e by (simp add: powi_nat)
  moreover have "(0::int) < 2 ^ nat (52 - ?e)" by simp
  ultimately show ?thesis by blast
qed

lemma round_double_ge_int:
  assumes "\<bar>x\<bar> < 2 ^ 53" "of_int k \<le> x"
  shows "of_int k \<le> round_double x"
proof (cases "x = 0")
  case True
  with assms show ?thesis by (simp add: round_double_def)
next
  case False
  then obtain N :: int where N: "ulp x * of_int N = 1" using ulp_inverse_int assms(1) by blast
  have k: "(of_int k :: rat) = of_int (k * N) * ulp x"
    using N by (simp add: mult.assoc mult.commute[of "of_int N"])
  show ?thesis using round_double_ge_multiple[of "k * N" x] assms(2) unfolding k[symmetric] by simp
qed

lemma round_double_le_int:
  assumes "\<bar>x\<bar> < 2 ^ 53" "x \<le> of_int k"
  shows "round_double x \<le> of_int k"
proof (cases "x = 0")
  case True
  with assms show ?thesis by (simp add: round_double_def)
next
  case False
  then obtain N :: int where N: "ulp x * of_int N = 1" using ulp_inverse_int assms(1) by blast
  have k: "(of_int k :: rat) = of_int (k * N) * ulp x"
    using N by (simp add: mult.assoc mult.commute[of "of_int N"])
  show ?thesis using round_double_le_multiple[of x "k * N"] assms(2) unfolding k[symmetric] by simp
qed

lemma ulp_normal:
  assumes "0 < x" "- 1022 \<le> ilog2 x"
  shows "ulp x \<le> x / 2 ^ 52"
proof -
  have "ulp x = 2 powi (ilog2 x - 52)" using assms by (simp add: ulp_def max_def)
  also have "\<dots> = 2 powi (ilog2 x) / 2 ^ 52" by (simp add: power_int_diff)
  also have "\<dots> \<le> x / 2 ^ 52" using ilog2_bounds(1)[OF assms(1)] by (simp add: divide_right_mono)
  finally show ?thesis .
qed

lemma ulp_subnormal:
  assumes "0 < x" "ilog2 x < - 1022"
  shows "ulp x = 2 powi (- 1074)" "x < 2 powi (- 1022)"
proof -
  show "ulp x = 2 powi (- 1074)" using assms by (simp add: ulp_def max_def)
  have "x < 2 powi (ilog2 x + 1)" using ilog2_bounds(2)[OF assms(1)] .
  also have "\<dots> \<le> 2 powi (- 1022)" using assms(2) by (intro powi_mono) simp
  finally show "x < 2 powi (- 1022)" .
qed

lemma of_int_less_two_53: "(a::int) < 2 ^ 53 \<Longrightarrow> (of_int a :: rat) < 2 ^ 53"
  by (metis of_int_less_numeral_power_cancel_iff)

lemma two_53_le_two_1024: "(2::rat) ^ 53 \<le> 2 ^ 1024" by (intro power_increasing) auto

lemma powi_1022_le_powi_1: "(2::rat) powi (- 1022) \<le> 2 powi (-1)" by (intro powi_mono) simp

lemma powi_minus_1: "(2::rat) powi (-1) = 1 / 2" by (simp add: power_int_minus)

lemma two_53_div_52: "0 < (b::rat) \<Longrightarrow> 2 ^ 53 / (b * 2 ^ 52) = 2 / b" by simp

lemma succ_le_mult_div: "0 < b \<Longrightarrow> a mod b \<noteq> 0 \<Longrightarrow> (a::int) + 1 \<le> b * (a div b + 1)"
proof -
  assume b: "0 < b" and m: "a mod b \<noteq> 0"
  have "a = b * (a div b) + a mod b" by simp
  moreover have "a mod b < b" using b by simp
  ultimately have "a + 1 \<le> b * (a div b) + b" by linarith
  then show ?thesis by (simp add: distrib_left)
qed

lemma trunc_round_div:
  assumes "0 \<le> a" "0 < b" "a < 2 ^ 53"
  shows "trunc (round_double (of_int a / of_int b)) = a div b"
proof -
  let ?x = "of_int a / of_int b :: rat"
  let ?k = "a div b"
  have b: "(0::rat) < of_int b" using assms(2) by simp
  have x0: "0 \<le> ?x" using assms by simp
  have xa: "?x \<le> of_int a"
  proof -
    have "(1::rat) \<le> of_int b" using assms(2) by (simp add: int_one_le_iff_zero_less)
    then have "of_int a / of_int b \<le> (of_int a :: rat) / 1"
      using assms(1) by (intro divide_left_mono) auto
    then show ?thesis by simp
  qed
  have "(of_int a :: rat) < 2 ^ 53" using assms(3) by (metis of_int_less_numeral_power_cancel_iff)
  then have xb: "\<bar>?x\<bar> < 2 ^ 53" using x0 xa by linarith
  have kx: "of_int ?k \<le> ?x"
    using floor_divide_of_int_eq[of a b, where ?'a = rat] of_int_floor_le[of ?x] by simp
  have lo: "of_int ?k \<le> round_double ?x" using round_double_ge_int[OF xb kx] .
  have k0: "0 \<le> ?k" using assms by (simp add: pos_imp_zdiv_nonneg_iff)
  have hi: "round_double ?x < of_int ?k + 1"
  proof (cases "?x = of_int ?k")
    case True
    have "round_double ?x \<le> of_int ?k" using round_double_le_int[OF xb] True by simp
    then show ?thesis by linarith
  next
    case False
    then have xpos: "0 < ?x" using kx k0 x0 by (cases "?x = 0") auto
    have apos: "0 < a" using xpos b by (simp add: zero_less_divide_iff)
    have "a mod b \<noteq> 0"
    proof
      assume "a mod b = 0"
      then have "a = ?k * b" by auto
      then have "(of_int a :: rat) = of_int ?k * of_int b" by (metis of_int_mult)
      then have "?x = of_int ?k" using b by simp
      with False show False by simp
    qed
    then have "a + 1 \<le> b * (?k + 1)" using assms(2) by (rule succ_le_mult_div[rotated])
    then have "(of_int (a + 1) :: rat) \<le> of_int (b * (?k + 1))" by (simp only: of_int_le_iff)
    then have "(of_int a + 1) / of_int b \<le> (of_int ?k + 1 :: rat)"
      using b by (simp add: pos_divide_le_eq mult.commute)
    then have gap: "?x + 1 / of_int b \<le> of_int ?k + 1" by (simp add: add_divide_distrib)
    have err: "round_double ?x \<le> ?x + ulp ?x / 2" using round_double_error[of ?x] by linarith
    show ?thesis
    proof (cases "- 1022 \<le> ilog2 ?x")
      case True
      have "ulp ?x \<le> ?x / 2 ^ 52" using ulp_normal[OF xpos True] .
      also have "\<dots> = of_int a / (of_int b * 2 ^ 52)" by simp
      also have "\<dots> < 2 ^ 53 / (of_int b * 2 ^ 52)"
        using \<open>(of_int a :: rat) < 2 ^ 53\<close> b by (intro divide_strict_right_mono) auto
      also have "\<dots> = 2 / of_int b" by simp
      finally have "ulp ?x / 2 < 1 / of_int b" by simp
      with err gap show ?thesis by linarith
    next
      case sub: False
      then have s: "ulp ?x = 2 powi (- 1074)" "?x < 2 powi (- 1022)"
        using ulp_subnormal[OF xpos] by auto
      have "(2::rat) powi (- 1022) \<le> 2 powi (-1)" by (intro powi_mono) simp
      moreover have "(2::rat) powi (- 1074) \<le> 2 powi (-1)" by (intro powi_mono) simp
      moreover have "(2::rat) powi (-1) = 1 / 2" by (simp add: power_int_minus)
      ultimately have "?x + ulp ?x / 2 < 1" using s by linarith
      moreover have "(0::rat) \<le> of_int ?k" using k0 by simp
      ultimately show ?thesis using err by linarith
    qed
  qed
  have "0 \<le> round_double ?x" using round_double_nonneg[OF x0] .
  moreover have "\<lfloor>round_double ?x\<rfloor> = ?k" using lo hi by (intro floor_unique) auto
  ultimately show ?thesis by (simp add: trunc_def)
qed


section \<open>The majority class\<close>

lemma max_by_count_first:
  "max_by_count b rest = hd (filter (\<lambda>kv. list_all (\<lambda>kv'. snd kv' \<le> snd kv) (b # rest)) (b # rest))"
proof (induction rest arbitrary: b)
  case Nil
  then show ?case by simp
next
  case (Cons kv rest)
  define P where "P = (\<lambda>x :: int \<times> int. list_all (\<lambda>kv'. snd kv' \<le> snd x) (b # kv # rest))"
  show ?case
  proof (cases "snd b < snd kv")
    case True
    define R where "R = (\<lambda>x :: int \<times> int. list_all (\<lambda>kv'. snd kv' \<le> snd x) (kv # rest))"
    have PR: "P x \<longleftrightarrow> R x" for x
      using True by (auto simp: P_def R_def)
    have npb: "\<not> P b" using True by (simp add: P_def)
    have "max_by_count b (kv # rest) = max_by_count kv rest" using True by simp
    also have "\<dots> = hd (filter R (kv # rest))" unfolding R_def by (rule Cons.IH)
    also have "filter R (kv # rest) = filter P (kv # rest)" using PR by presburger
    also have "\<dots> = filter P (b # kv # rest)" using npb by simp
    finally show ?thesis unfolding P_def .
  next
    case False
    define Q where "Q = (\<lambda>x :: int \<times> int. list_all (\<lambda>kv'. snd kv' \<le> snd x) (b # rest))"
    have PQ: "P x \<longleftrightarrow> Q x" if "x \<in> set (b # rest)" for x
      using False that by (auto simp: P_def Q_def list_all_iff)
    have "max_by_count b (kv # rest) = max_by_count b rest" using False by simp
    also have "\<dots> = hd (filter Q (b # rest))" unfolding Q_def by (rule Cons.IH)
    finally have IH: "max_by_count b (kv # rest) = hd (filter Q (b # rest))" .
    have fr: "filter P rest = filter Q rest"
      by (rule filter_cong) (use PQ in auto)
    show ?thesis
    proof (cases "Q b")
      case True
      then have "P b" using PQ[of b] by simp
      then have "hd (filter P (b # kv # rest)) = b" by simp
      moreover have "hd (filter Q (b # rest)) = b" using True by simp
      ultimately show ?thesis using IH unfolding P_def by simp
    next
      case nb: False
      then have npb: "\<not> P b" using PQ[of b] by simp
      have nkv: "\<not> P kv"
      proof
        assume "P kv"
        then have "snd b \<le> snd kv" "\<forall>y\<in>set rest. snd y \<le> snd kv" by (auto simp: P_def list_all_iff)
        with False have "Q b" by (auto simp: Q_def list_all_iff)
        with nb show False by simp
      qed
      have "filter P (b # kv # rest) = filter P rest" using npb nkv by simp
      moreover have "filter Q (b # rest) = filter Q rest" using nb by simp
      ultimately show ?thesis using IH fr unfolding P_def by simp
    qed
  qed
qed

lemma unpack1_most_common1:
  "unpack1 (most_common1 cs) = (if cs = [] then Inl ValueError else Inr (spec_majority cs))"
proof (cases cs)
  case Nil
  then show ?thesis by (simp add: unpack1_def most_common1_def)
next
  case (Cons kv rest)
  then show ?thesis
    by (simp add: unpack1_def most_common1_def spec_majority_def max_by_count_first del: max_by_count.simps)
qed




section \<open>Properties of node\_to\_str\<close>









lemma int_true_div_ok:
  "b \<noteq> 0 \<Longrightarrow> \<not> overflows (of_int a / of_int b) \<Longrightarrow> int_true_div a b = Inr (quotient_float a b)"
  by (simp add: int_true_div_def quotient_float_def Let_def)

lemma int_of_quotient_float: "int_of_float (quotient_float a b) = Inr (trunc (round_double (of_int a / of_int b)))"
  by (simp add: int_of_float_def quotient_float_def Let_def trunc_def)








section \<open>Properties of get\_node\_color\<close>


lemma get_node_color_internal:
  assumes "\<not> is_leaf node" "counts node \<noteq> []" "spec_majority (counts node) = (cls, cnt)"
    and "tot = sum_list (map snd (counts node))" "tot \<noteq> 0"
    and "py_get colors cls = Inr rgb"
    and "\<not> overflows (of_int (255 * cnt) / of_int tot)"
  shows "get_node_color colors node =
           to_hexadecimal (rgb @ [trunc (round_double (of_int (255 * cnt) / of_int tot))])"
  using assms
  by (simp add: get_node_color_def unpack1_most_common1 int_true_div_ok int_of_quotient_float Let_def)


lemma get_node_color_leaf:
  "is_leaf node \<Longrightarrow> node_val node = ClassIndex i \<Longrightarrow> py_get colors i = Inr rgb \<Longrightarrow>
   get_node_color colors node = to_hexadecimal rgb"
  by (simp add: get_node_color_def)





section \<open>to\_hexadecimal outside 0..255 and its callers\<close>

text \<open>
  Claim C10, as stated: \<open>to_hexadecimal\<close> returns only for channels in 0..255. It does
  return for the channel \<open>-1\<close>: the quotient \<open>-1\<close> indexes the table from its end.
\<close>

theorem to_hexadecimal_negative_channel: "to_hexadecimal [-1] = Inr ''#ff''"
  by code_simp

text \<open>
  Claim C10, amended. \<open>to_hexadecimal\<close> raises IndexError exactly when some channel is
  above 255 or below \<open>-256\<close>, and it returns a string exactly when every channel lies
  in \<open>-256..255\<close>; the two digits of a channel are then those of the channel modulo
  256, so a channel from \<open>-256\<close> to \<open>-1\<close> is rendered as that channel plus 256. For the
  callers: the colour of a leaf raises IndexError exactly when the palette colour of its
  class has a channel outside \<open>-256..255\<close>, and the colour of an internal node exactly
  when a channel of the palette colour or the alpha value is outside that range.
\<close>

theorem to_hexadecimal_fails_iff:
  "(to_hexadecimal values = Inl IndexError \<longleftrightarrow> (\<exists>c\<in>set values. c < -256 \<or> 255 < c))
   \<and> ((\<exists>s. to_hexadecimal values = Inr s) \<longleftrightarrow> (\<forall>c\<in>set values. -256 \<le> c \<and> c \<le> 255))
   \<and> ((\<forall>c\<in>set values. -256 \<le> c \<and> c \<le> 255) \<longrightarrow>
        to_hexadecimal values =
          Inr (CHR ''#'' # concat (map (\<lambda>c. [spec_hex_digit (nat (c mod 256 div 16)),
                                              spec_hex_digit (nat (c mod 16))]) values)))
   \<and> (is_leaf node \<and> node_val node = ClassIndex i \<and> py_get colors i = Inr rgb \<longrightarrow>
        (get_node_color colors node = Inl IndexError \<longleftrightarrow> (\<exists>c\<in>set rgb. c < -256 \<or> 255 < c)))
   \<and> (\<not> is_leaf node \<and> counts node \<noteq> [] \<and> spec_majority (counts node) = (cls, cnt)
       \<and> tot = sum_list (map snd (counts node)) \<and> tot \<noteq> 0
       \<and> py_get colors cls = Inr rgb \<and> \<not> overflows (of_int (255 * cnt) / of_int tot)
       \<and> alpha = trunc (round_double (of_int (255 * cnt) / of_int tot)) \<longrightarrow>
        (get_node_color colors node = Inl IndexError \<longleftrightarrow>
           (\<exists>c\<in>set rgb. c < -256 \<or> 255 < c) \<or> alpha < -256 \<or> 255 < alpha))"
proof -
  have leaf: "get_node_color colors node = Inl IndexError \<longleftrightarrow> (\<exists>c\<in>set rgb. c < -256 \<or> 255 < c)"
    if "is_leaf node" "node_val node = ClassIndex i" "py_get colors i = Inr rgb"
    unfolding get_node_color_leaf[OF that] by (rule to_hexadecimal_Inl_iff)
  have internal: "get_node_color colors node = Inl IndexError \<longleftrightarrow>
           (\<exists>c\<in>set rgb. c < -256 \<or> 255 < c) \<or> alpha < -256 \<or> 255 < alpha"
    if "\<not> is_leaf node" "counts node \<noteq> []" "spec_majority (counts node) = (cls, cnt)"
       "tot = sum_list (map snd (counts node))" "tot \<noteq> 0"
       "py_get colors cls = Inr rgb" "\<not> overflows (of_int (255 * cnt) / of_int tot)"
       "alpha = trunc (round_double (of_int (255 * cnt) / of_int tot))"
    unfolding get_node_color_internal[OF that(1-7)] that(8)[symmetric] to_hexadecimal_Inl_iff
    by auto
  have digits: "to_hexadecimal values =
          Inr (CHR ''#'' # concat (map (\<lambda>c. [spec_hex_digit (nat (c mod 256 div 16)),
                                              spec_hex_digit (nat (c mod 16))]) values))"
    if "\<forall>c\<in>set values. -256 \<le> c \<and> c \<le> 255"
    using that by (rule to_hexadecimal_wrapped)
  note a = to_hexadecimal_Inl_iff[of "values"] and b = to_hexadecimal_Inr_iff[of "values"]
  show ?thesis
  proof (intro conjI)
    show "to_hexadecimal values = Inl IndexError \<longleftrightarrow> (\<exists>c\<in>set values. c < -256 \<or> 255 < c)"
      by (rule a)
    show "(\<exists>s. to_hexadecimal values = Inr s) \<longleftrightarrow> (\<forall>c\<in>set values. -256 \<le> c \<and> c \<le> 255)"
      by (rule b)
    show "(\<forall>c\<in>set values. -256 \<le> c \<and> c \<le> 255) \<longrightarrow>
        to_hexadecimal values =
          Inr (CHR ''#'' # concat (map (\<lambda>c. [spec_hex_digit (nat (c mod 256 div 16)),
                                              spec_hex_digit (nat (c mod 16))]) values))"
      using digits by (rule impI)
    show "is_leaf node \<and> node_val node = ClassIndex i \<and> py_get colors i = Inr rgb \<longrightarrow>
        (get_node_color colors node = Inl IndexError \<longleftrightarrow> (\<exists>c\<in>set rgb. c < -256 \<or> 255 < c))"
    proof (intro impI, elim conjE)
      assume "is_leaf node" "node_val node = ClassIndex i" "py_get colors i = Inr rgb"
      then show "get_node_color colors node = Inl IndexError \<longleftrightarrow> (\<exists>c\<in>set rgb. c < -256 \<or> 255 < c)"
        by (rule leaf)
    qed
    show "\<not> is_leaf node \<and> counts node \<noteq> [] \<and> spec_majority (counts node) = (cls, cnt)
       \<and> tot = sum_list (map snd (counts node)) \<and> tot \<noteq> 0
       \<and> py_get colors cls = Inr rgb \<and> \<not> overflows (of_int (255 * cnt) / of_int tot)
       \<and> alpha = trunc (round_double (of_int (255 * cnt) / of_int tot)) \<longrightarrow>
        (get_node_color colors node = Inl IndexError \<longleftrightarrow>
           (\<exists>c\<in>set rgb. c < -256 \<or> 255 < c) \<or> alpha < -256 \<or> 255 < alpha)"
    proof (intro impI, elim conjE)
      assume "\<not> is_leaf node" "counts node \<noteq> []" "spec_majority (counts node) = (cls, cnt)"
       "tot = sum_list (map snd (counts node))" "tot \<noteq> 0"
       "py_get colors cls = Inr rgb" "\<not> overflows (of_int (255 * cnt) / of_int tot)"
       "alpha = trunc (round_double (of_int (255 * cnt) / of_int tot))"
      then show "get_node_color colors node = Inl IndexError \<longleftrightarrow>
           (\<exists>c\<in>set rgb. c < -256 \<or> 255 < c) \<or> alpha < -256 \<or> 255 < alpha"
        by (rule internal)
    qed
  qed
qed

theorem to_hexadecimal_fails_iff_witness:
  "(\<exists>c\<in>set [229, 129, 57, 256::int]. c < -256 \<or> 255 < c)
   \<and> to_hexadecimal [229, 129, 57, 256] = Inl IndexError
   \<and> list_all (\<lambda>c. -256 \<le> c \<and> c \<le> 255) [-1, -256, 255::int]
   \<and> to_hexadecimal [-1, -256, 255] = Inr ''#ff00ff''
   \<and> get_node_color [[256, 0, 0]] (Node True 0 (ClassIndex 0) (Finite 0) [] None None) = Inl IndexError
   \<and> get_node_color [[229, 129, 57]] (Node False 0 (Threshold (Finite 1)) (Finite 0) [(0, 3), (1, -1)] None None)
       = Inl IndexError"
proof -
  let ?leaf = "Node True 0 (ClassIndex 0) (Finite 0) [] None None"
  let ?node = "Node False 0 (Threshold (Finite 1)) (Finite 0) [(0, 3), (1, -1)] None None"
  have m: "spec_majority [(0, 3), (1, - 1)] = (0::int, 3::int)" by (simp add: spec_majority_def)
  have o: "\<not> overflows (of_int (255 * 3) / of_int 2)" by code_simp
  have t: "trunc (round_double (of_int (255 * 3) / of_int 2)) = 382" by code_simp
  from to_hexadecimal_fails_iff[of "[229, 129, 57, 256]" ?leaf 0 "[[256, 0, 0]]" "[256, 0, 0]"]
  have 1: "to_hexadecimal [229, 129, 57, 256] = Inl IndexError"
    and 2: "get_node_color [[256, 0, 0]] ?leaf = Inl IndexError"
    by (simp_all add: py_get_def)
  from to_hexadecimal_fails_iff[of "[-1, -256, 255]" ?node _ "[[229, 129, 57]]" "[229, 129, 57]" 0 3 2 382]
  have 3: "to_hexadecimal [-1, -256, 255] = Inr ''#ff00ff''"
    and 4: "get_node_color [[229, 129, 57]] ?node = Inl IndexError"
    using m o t by (simp_all add: py_get_def spec_hex_digit_def)
  from 1 2 3 4 show ?thesis by simp
qed

section \<open>Properties of \_color\_brew\<close>

lemma round_double_of_int:
  assumes "\<bar>i\<bar> < 2 ^ 53"
  shows "round_double (of_int i) = of_int i"
proof -
  have "(of_int \<bar>i\<bar> :: rat) < 2 ^ 53" using assms by (rule of_int_less_two_53)
  then have b: "\<bar>of_int i :: rat\<bar> < 2 ^ 53" by simp
  have "round_double (of_int i) \<le> of_int i" using round_double_le_int[OF b, of i] by simp
  moreover have "of_int i \<le> round_double (of_int i)" using round_double_ge_int[OF b, of i] by simp
  ultimately show ?thesis by simp
qed

lemma float_of_int_small:
  assumes "\<bar>i\<bar> < 2 ^ 53"
  shows "float_of_int i = Inr (of_int i)"
proof -
  have "(of_int \<bar>i\<bar> :: rat) < 2 ^ 53" using assms by (rule of_int_less_two_53)
  moreover have "(2::rat) ^ 53 \<le> 2 ^ 1024" by (rule two_53_le_two_1024)
  ultimately have "\<bar>of_int i :: rat\<bar> < 2 ^ 1024" by simp
  then show ?thesis
    by (simp add: float_of_int_def overflows_def round_double_of_int[OF assms])
qed

lemma brew_constants:
  "round_double (75 / 100) = 3 / 4"
  "round_double (9 / 10) = 8106479329266893 / 9007199254740992"
  "fmul (3 / 4) (8106479329266893 / 9007199254740992) = 3039929748475085 / 4503599627370496"
  "fsub (8106479329266893 / 9007199254740992) (3039929748475085 / 4503599627370496) = 2026619832316723 / 9007199254740992"
  by code_simp+

lemma hue_rgb_25: "hue_rgb (3039929748475085 / 4503599627370496) (2026619832316723 / 9007199254740992) 25 = Inr [229, 129, 57]"
proof -
  have hb: "fdiv (of_int 25) 60 = 7505999378950827 / 18014398509481984" by code_simp
  have md: "fmod (7505999378950827 / 18014398509481984) 2 = 7505999378950827 / 18014398509481984" by code_simp
  have s1: "\<bar>fsub (7505999378950827 / 18014398509481984) 1\<bar> = 2627099782632789 / 4503599627370496" by code_simp
  have s2: "fsub 1 (2627099782632789 / 4503599627370496) = 1876499844737707 / 4503599627370496" by code_simp
  have x: "fmul (3039929748475085 / 4503599627370496) (1876499844737707 / 4503599627370496) = 5066549580791809 / 18014398509481984" by code_simp
  have t: "trunc (7505999378950827 / 18014398509481984) = 0" by code_simp
  have r: "trunc (fmul 255 (fadd (3039929748475085 / 4503599627370496) (2026619832316723 / 9007199254740992))) = 229" by code_simp
  have g: "trunc (fmul 255 (fadd (5066549580791809 / 18014398509481984) (2026619832316723 / 9007199254740992))) = 129" by code_simp
  have b: "trunc (fmul 255 (fadd 0 (2026619832316723 / 9007199254740992))) = 57" by code_simp
  show ?thesis
    unfolding hue_rgb_def Let_def hb md s1 s2 x t
    by (simp add: py_get_def r g b)
qed

lemma arange_360: "arange 25 385 360 = Inr [25]"
proof -
  have "fdiv (of_int (385 - 25)) 360 = 1" by code_simp
  then show ?thesis by (simp add: arange_def)
qed

lemma color_brew_1: "color_brew 1 = Inr [[229, 129, 57]]"
proof -
  have d: "fdiv 360 1 = 360" by code_simp
  have t: "trunc 25 = 25" by (simp add: trunc_def)
  have f: "float_of_int 1 = Inr 1" using float_of_int_small[of 1] by simp
  show ?thesis
    unfolding color_brew_def Let_def brew_constants f
    by (simp add: d arange_360 t hue_rgb_25)
qed

lemma map_err_total:
  assumes "\<And>x. x \<in> set xs \<Longrightarrow> \<exists>y. f x = Inr y"
  shows "\<exists>ys. map_err f xs = Inr ys \<and> length ys = length xs"
proof (cases "map_err f xs")
  case (Inl e)
  then obtain x where "x \<in> set xs" "f x = Inl e" using map_err_Inl_elem by blast
  then show ?thesis using assms by force
next
  case (Inr ys)
  then show ?thesis using map_err_length by blast
qed

lemma hue_rgb_total:
  assumes "0 \<le> h" "h < 420"
  shows "\<exists>rgb. hue_rgb c m h = Inr rgb"
proof -
  have "h < 2 ^ 53" using assms(2) by simp
  from trunc_round_div[OF assms(1) _ this, of 60]
  have t: "trunc (fdiv (of_int h) 60) = h div 60" by (simp add: fdiv_def)
  have b: "0 \<le> h div 60" "h div 60 < 7" using assms by auto
  define x where "x = fmul c (fsub 1 \<bar>fsub (fmod (fdiv (of_int h) 60) 2) 1\<bar>)"
  define tbl where "tbl = [(c, x, 0::rat), (x, c, 0), (0, c, x), (0, x, c), (x, 0, c), (c, 0, x), (c, x, 0)]"
  have "length tbl = 7" by (simp add: tbl_def)
  then have "\<exists>p. py_get tbl (h div 60) = Inr p"
    unfolding py_get_Inr_iff using b by simp
  then obtain r g bl where p: "py_get tbl (h div 60) = Inr (r, g, bl)"
    by (metis prod_cases3)
  have "hue_rgb c m h = (case py_get tbl (h div 60) of
           Inl e \<Rightarrow> Inl e
         | Inr (r, g, b) \<Rightarrow>
             Inr [trunc (fmul 255 (fadd r m)), trunc (fmul 255 (fadd g m)), trunc (fmul 255 (fadd b m))])"
    unfolding hue_rgb_def Let_def t x_def tbl_def ..
  then show ?thesis unfolding p by simp
qed

lemma arange_161:
  "arange 25 385 (314692520546075 / 140737488355328) =
     Inr (map (\<lambda>i. if i = 0 then 25
                     else if i = 1 then 3833129729429275 / 140737488355328
                     else fadd 25 (fmul (of_nat i) (314692520546075 / 140737488355328))) [0..<162])"
proof -
  have q: "fdiv (of_int (385 - 25)) (314692520546075 / 140737488355328)
             = 5664683906301953 / 35184372088832" by code_simp
  have len: "nat \<lceil>5664683906301953 / 35184372088832 :: rat\<rceil> = 162" by code_simp
  have nx: "fadd (of_int 25) (314692520546075 / 140737488355328)
             = 3833129729429275 / 140737488355328" by code_simp
  have dl: "fsub (3833129729429275 / 140737488355328) (of_int 25)
             = 314692520546075 / 140737488355328" by code_simp
  show ?thesis
    unfolding arange_def Let_def q len nx dl by simp
qed

lemma hue_161_bounds:
  assumes "i < 162"
  shows "0 \<le> trunc (if i = 0 then 25
                     else if i = 1 then 3833129729429275 / 140737488355328
                     else fadd 25 (fmul (of_nat i) (314692520546075 / 140737488355328)))"
    and "trunc (if i = 0 then 25
                     else if i = 1 then 3833129729429275 / 140737488355328
                     else fadd 25 (fmul (of_nat i) (314692520546075 / 140737488355328))) < 420"
proof -
  define d :: rat where "d = 314692520546075 / 140737488355328"
  define y where "y = of_nat i * d"
  have d: "0 \<le> d" "161 * d \<le> 361" by (simp_all add: d_def)
  have "(of_nat i :: rat) \<le> 161" using assms by simp
  then have "y \<le> 161 * d" unfolding y_def using d(1) by (rule mult_right_mono)
  then have y1: "y \<le> of_int 361" using d(2) by simp
  have y0: "of_int 0 \<le> y" unfolding y_def using d(1) by simp
  have ya: "\<bar>y\<bar> < 2 ^ 53" using y0 y1 by simp
  have r0: "0 \<le> round_double y" using round_double_ge_int[OF ya y0] by simp
  have r1: "round_double y \<le> 361" using round_double_le_int[OF ya y1] by simp
  define z where "z = 25 + round_double y"
  have z0: "of_int 25 \<le> z" and z1: "z \<le> of_int 386" using r0 r1 by (simp_all add: z_def)
  have za: "\<bar>z\<bar> < 2 ^ 53" using z0 z1 by simp
  have e0: "25 \<le> round_double z" using round_double_ge_int[OF za z0] by simp
  have e1: "round_double z \<le> 386" using round_double_le_int[OF za z1] by simp
  have f: "fadd 25 (fmul (of_nat i) d) = round_double z"
    by (simp add: fadd_def fmul_def z_def y_def)
  have lo: "0 \<le> trunc (round_double z)" using e0 by (simp add: trunc_def)
  have "\<lfloor>round_double z\<rfloor> \<le> 386" using e1 by (simp add: floor_le_iff)
  then have hi: "trunc (round_double z) < 420" using e0 by (simp add: trunc_def)
  have c0: "trunc 25 = 25" by (simp add: trunc_def)
  have c1: "trunc (3833129729429275 / 140737488355328) = 27" by code_simp
  show "0 \<le> trunc (if i = 0 then 25
                     else if i = 1 then 3833129729429275 / 140737488355328
                     else fadd 25 (fmul (of_nat i) (314692520546075 / 140737488355328)))"
    using lo c0 c1 unfolding d_def[symmetric] f by simp
  show "trunc (if i = 0 then 25
                     else if i = 1 then 3833129729429275 / 140737488355328
                     else fadd 25 (fmul (of_nat i) (314692520546075 / 140737488355328))) < 420"
    using hi c0 c1 unfolding d_def[symmetric] f by simp
qed

text \<open>
  Claim C2. For \<open>n = 161\<close> the palette has 162 colours: the step \<^verbatim>\<open>360. / 161\<close> is
  rounded, the quotient \<^verbatim>\<open>360 / step\<close> that \<^verbatim>\<open>np.arange\<close> takes the ceiling of is
  \<open>161.00000000000003\<close>, and every one of the 162 hues is converted without an
  exception.
\<close>

theorem color_brew_161_length: "map_sum id length (color_brew 161) = Inr 162"
proof -
  define c :: rat where "c = 3039929748475085 / 4503599627370496"
  define m :: rat where "m = 2026619832316723 / 9007199254740992"
  define e :: "nat \<Rightarrow> rat" where
    "e = (\<lambda>i. if i = 0 then 25
              else if i = 1 then 3833129729429275 / 140737488355328
              else fadd 25 (fmul (of_nat i) (314692520546075 / 140737488355328)))"
  have f: "float_of_int 161 = Inr 161" using float_of_int_small[of 161] by simp
  have s: "fdiv 360 161 = 314692520546075 / 140737488355328" by code_simp
  have a: "arange 25 385 (314692520546075 / 140737488355328) = Inr (map e [0..<162])"
    unfolding e_def by (rule arange_161)
  have "\<exists>ys. map_err (hue_rgb c m) (map trunc (map e [0..<162])) = Inr ys
              \<and> length ys = length (map trunc (map e [0..<162]))"
  proof (rule map_err_total)
    fix h assume "h \<in> set (map trunc (map e [0..<162]))"
    then obtain i where i: "i < 162" "h = trunc (e i)" by auto
    have "0 \<le> h" "h < 420"
      unfolding i(2) e_def using hue_161_bounds[OF i(1)] by blast+
    then show "\<exists>y. hue_rgb c m h = Inr y" by (rule hue_rgb_total)
  qed
  then obtain ys where ys: "map_err (hue_rgb c m) (map trunc (map e [0..<162])) = Inr ys"
    and l: "length ys = 162" by auto
  have cb: "color_brew 161 =
              (case arange 25 385 (fdiv 360 161) of
                 Inl x \<Rightarrow> Inl x
               | Inr hs \<Rightarrow> map_err (hue_rgb c m) (map trunc hs))"
    unfolding color_brew_def Let_def brew_constants c_def m_def by (simp add: f)
  have "color_brew 161 = Inr ys"
    unfolding cb s a using ys by simp
  then show ?thesis using l by simp
qed

section \<open>Properties of create\<close>

lemma labels_colors_erase: "labels_colors (map erase_uid cs) = labels_colors cs"
proof (induction cs)
  case Nil
  then show ?case by (simp add: labels_colors_def map_filter_simps)
next
  case (Cons c cs)
  then show ?case by (cases c) (simp_all add: labels_colors_def map_filter_simps)
qed


lemma create_label_fails:
  assumes "node_to_str F C (Node leaf feat v gi cnts l r) = Inl e"
  shows "create F C P (Node leaf feat v gi cnts l r) s (Suc k) =
           (Inl e, s\<lparr>random := snd (node_id 20 digits (random s))\<rparr>)"
proof -
  obtain u g where n: "node_id 20 digits (random s) = (u, g)" by (cases "node_id 20 digits (random s)")
  show ?thesis using assms by (simp add: n)
qed

lemma create_color_fails:
  assumes "node_to_str F C (Node leaf feat v gi cnts l r) = Inr label"
    and "get_node_color P (Node leaf feat v gi cnts l r) = Inl e"
  shows "create F C P (Node leaf feat v gi cnts l r) s (Suc k) =
           (Inl e, s\<lparr>random := snd (node_id 20 digits (random s))\<rparr>)"
proof -
  obtain u g where n: "node_id 20 digits (random s) = (u, g)" by (cases "node_id 20 digits (random s)")
  show ?thesis using assms by (simp add: n)
qed

lemma create_unfold:
  assumes "node_to_str F C (Node leaf feat v gi cnts l r) = Inr label"
    and "get_node_color P (Node leaf feat v gi cnts l r) = Inr color"
    and "uid = fst (node_id 20 digits (random s))"
    and "a = file_write (NodeStmt uid label color) (s\<lparr>random := snd (node_id 20 digits (random s))\<rparr>)"
  shows "create F C P (Node leaf feat v gi cnts l r) s (Suc k) =
     (if leaf then (Inr uid, a)
      else (case (case l of None \<Rightarrow> (Inr uid, a)
                  | Some lc \<Rightarrow> emit_edge uid ''yes'' (create F C P lc a k)) of
              (Inl e, b) \<Rightarrow> (Inl e, b)
            | (Inr _, b) \<Rightarrow>
                (case r of None \<Rightarrow> (Inr uid, b)
                 | Some rc \<Rightarrow> emit_edge uid ''no'' (create F C P rc b k))))"
proof -
  obtain u g where n: "node_id 20 digits (random s) = (u, g)" by (cases "node_id 20 digits (random s)")
  show ?thesis unfolding assms(3,4) n fst_conv snd_conv using assms(1,2) by (simp add: n Let_def)
qed

lemma same_outcome_emit_edge:
  "same_outcome r1 r2 \<Longrightarrow> same_outcome (emit_edge u1 lbl r1) (emit_edge u2 lbl r2)"
  by (cases r1; cases r2; cases "fst r1"; cases "fst r2")
     (auto simp: same_outcome_def emit_edge_def file_write_def)

lemma create_same_outcome:
  "map erase_uid (written s1) = map erase_uid (written s2) \<Longrightarrow>
   same_outcome (create F C P node s1 k) (create F C P node s2 k)"
proof (induction k arbitrary: node s1 s2)
  case 0
  then show ?case by (simp add: same_outcome_def)
next
  case (Suc k)
  obtain leaf feat v gi cnts l r where node: "node = Node leaf feat v gi cnts l r" by (cases node)
  let ?node = "Node leaf feat v gi cnts l r"
  show ?case
  proof (cases "node_to_str F C ?node")
    case (Inl e)
    show ?thesis unfolding node create_label_fails[OF Inl]
      using Suc.prems by (simp add: same_outcome_def)
  next
    case lab: (Inr label)
    show ?thesis
    proof (cases "get_node_color P ?node")
      case (Inl e)
      show ?thesis unfolding node create_color_fails[OF lab Inl]
        using Suc.prems by (simp add: same_outcome_def)
    next
      case col: (Inr color)
      define u1 where "u1 = fst (node_id 20 digits (random s1))"
      define u2 where "u2 = fst (node_id 20 digits (random s2))"
      define a1 where "a1 = file_write (NodeStmt u1 label color) (s1\<lparr>random := snd (node_id 20 digits (random s1))\<rparr>)"
      define a2 where "a2 = file_write (NodeStmt u2 label color) (s2\<lparr>random := snd (node_id 20 digits (random s2))\<rparr>)"
      note c1 = create_unfold[OF lab col u1_def a1_def, of k]
      note c2 = create_unfold[OF lab col u2_def a2_def, of k]
      have a: "map erase_uid (written a1) = map erase_uid (written a2)"
        using Suc.prems by (simp add: a1_def a2_def file_write_def)
      show ?thesis
      proof (cases leaf)
        case True
        then show ?thesis unfolding node c1 c2 using a by (simp add: same_outcome_def)
      next
        case False
        define L1 where "L1 = (case l of None \<Rightarrow> (Inr u1, a1) | Some lc \<Rightarrow> emit_edge u1 ''yes'' (create F C P lc a1 k))"
        define L2 where "L2 = (case l of None \<Rightarrow> (Inr u2, a2) | Some lc \<Rightarrow> emit_edge u2 ''yes'' (create F C P lc a2 k))"
        have L: "same_outcome L1 L2"
        proof (cases l)
          case None
          then show ?thesis using a by (simp add: L1_def L2_def same_outcome_def)
        next
          case (Some lc)
          have "same_outcome (create F C P lc a1 k) (create F C P lc a2 k)"
            using a by (rule Suc.IH)
          then show ?thesis unfolding L1_def L2_def Some by (simp add: same_outcome_emit_edge)
        qed
        obtain x1 b1 where l1: "L1 = (x1, b1)" by (cases L1)
        obtain x2 b2 where l2: "L2 = (x2, b2)" by (cases L2)
        have b: "map erase_uid (written b1) = map erase_uid (written b2)"
          and x: "map_sum id (\<lambda>_. ()) x1 = map_sum id (\<lambda>_. ()) x2"
          using L by (simp_all add: same_outcome_def l1 l2)
        have d1: "create F C P ?node s1 (Suc k) =
                    (case x1 of Inl e \<Rightarrow> (Inl e, b1)
                     | Inr _ \<Rightarrow> (case r of None \<Rightarrow> (Inr u1, b1)
                                 | Some rc \<Rightarrow> emit_edge u1 ''no'' (create F C P rc b1 k)))"
          unfolding c1 L1_def[symmetric] l1 using False by (cases x1) simp_all
        have d2: "create F C P ?node s2 (Suc k) =
                    (case x2 of Inl e \<Rightarrow> (Inl e, b2)
                     | Inr _ \<Rightarrow> (case r of None \<Rightarrow> (Inr u2, b2)
                                 | Some rc \<Rightarrow> emit_edge u2 ''no'' (create F C P rc b2 k)))"
          unfolding c2 L2_def[symmetric] l2 using False by (cases x2) simp_all
        show ?thesis
        proof (cases x1)
          case (Inl e)
          then obtain e' where "x2 = Inl e'" "e' = e" using x by (cases x2) auto
          then show ?thesis unfolding node d1 d2 using Inl b by (simp add: same_outcome_def)
        next
          case (Inr y1)
          then obtain y2 where x2: "x2 = Inr y2" using x by (cases x2) auto
          show ?thesis
          proof (cases r)
            case None
            then show ?thesis unfolding node d1 d2 using Inr x2 b by (simp add: same_outcome_def)
          next
            case (Some rc)
            have "same_outcome (create F C P rc b1 k) (create F C P rc b2 k)"
              using b by (rule Suc.IH)
            then show ?thesis unfolding node d1 d2 using Inr x2 Some
              by (simp add: same_outcome_emit_edge)
          qed
        qed
      qed
    qed
  qed
qed






lemma create_leaf:
  assumes "py_get C i = Inr label" "py_get P i = Inr rgb" "to_hexadecimal rgb = Inr color"
  shows "create F C P (Node True feat (ClassIndex i) gi cnts l r) s (Suc k) =
           (Inr (fst (node_id 20 digits (random s))),
            \<lparr>written = written s @ [NodeStmt (fst (node_id 20 digits (random s))) label color],
             random = snd (node_id 20 digits (random s))\<rparr>)"
proof -
  obtain u g where n: "node_id 20 digits (random s) = (u, g)" by (cases "node_id 20 digits (random s)")
  show ?thesis using assms
    by (simp add: n node_to_str_def get_node_color_def file_write_def)
qed

lemma leaf_color_A: "to_hexadecimal [229, 129, 57] = Inr ''#e58139''"
  by (simp add: to_hexadecimal_in_range spec_hex_digit_def)





section \<open>Properties of create\_graph\<close>

lemma create_graph_py_StringIO:
  assumes "color_brew (int (length C)) = Inr colors"
  shows "create_graph_py tree F C None g fs k =
     (case create F C colors tree
             \<lparr>written = [Text ''digraph Tree {\<newline>'',
                          Text ''node [shape=\"box\", style=\"filled, rounded\", color=\"black\"];\<newline>''],
              random = g\<rparr> k of
        (Inl e, s) \<Rightarrow> (Inl e, random s, fs)
      | (Inr uid, s) \<Rightarrow> (Inr (getvalue_text (written s @ [Text ''}''])), random s, fs))"
  by (simp add: create_graph_py_def assms Let_def styling_def file_write_def getvalue_def close_def
           del: create.simps split: prod.splits sum.splits)

lemma create_graph_py_file:
  assumes "color_brew (int (length C)) = Inr colors" "fs path \<noteq> NotWritable"
  shows "create_graph_py tree F C (Some path) g fs k =
     (case create F C colors tree
             \<lparr>written = [Text ''digraph Tree {\<newline>'',
                          Text ''node [shape=\"box\", style=\"filled, rounded\", color=\"black\"];\<newline>''],
              random = g\<rparr> k of
        (Inl e, s) \<Rightarrow> (Inl e, random s, fs(path := File (getvalue_text (written s))))
      | (Inr uid, s) \<Rightarrow>
          (Inl AttributeError, random s, fs(path := File (getvalue_text (written s @ [Text ''}''])))))"
proof -
  have o: "open_w path fs = Inr (fs(path := File []))"
    using assms(2) by (cases "fs path") (simp_all add: open_w_def)
  show ?thesis
    by (simp add: create_graph_py_def assms(1) o Let_def styling_def file_write_def getvalue_def close_def
           del: create.simps split: prod.splits sum.splits)
qed

lemma create_graph_py_never_returns:
  "isl (fst (create_graph_py tree F C (Some path) g fs k))"
proof (cases "color_brew (int (length C))")
  case (Inl e)
  then show ?thesis by (simp add: create_graph_py_def)
next
  case (Inr colors)
  show ?thesis
  proof (cases "fs path = NotWritable")
    case True
    then show ?thesis by (simp add: create_graph_py_def Inr open_w_def)
  next
    case False
    show ?thesis
      unfolding create_graph_py_file[where fs = fs and path = path, OF Inr False]
      by (simp split: prod.splits sum.splits)
  qed
qed


text \<open>
  Claim C7. For a tree that is a single leaf of class index 0 and the class names
  \<^verbatim>\<open>["A"]\<close>, whenever the interpreter admits a call of \<^verbatim>\<open>create\<close>, the palette is
  the one colour \<open>[229, 129, 57]\<close>, and \<open>create\<close> writes exactly one node statement,
  with the label \<open>A\<close>, which is \<^verbatim>\<open>class_names[0]\<close>, and the fill colour \<open>#e58139\<close>,
  and no edge statement; the text returned is the header, that statement and the closing
  brace.
\<close>

theorem single_leaf_graph:
  "fst (create_graph_py (Node True feat (ClassIndex 0) gi cnts l r) F [''A''] None g fs (Suc k)) =
     Inr (getvalue_text
           [Text ''digraph Tree {\<newline>'',
            Text ''node [shape=\"box\", style=\"filled, rounded\", color=\"black\"];\<newline>'',
            NodeStmt (fst (node_id 20 digits g)) ''A'' ''#e58139'',
            Text ''}''])
   \<and> fst (create_graph_py (Node True feat (ClassIndex 0) gi cnts l r) F [''A''] None g fs (Suc k)) =
     Inr (''digraph Tree {\<newline>node [shape=\"box\", style=\"filled, rounded\", color=\"black\"];\<newline>''
          @ fst (node_id 20 digits g) @ '' [label=\"A\", fillcolor=\"#e58139\"];\<newline>}'')
   \<and> color_brew (int (length [''A''])) = Inr [[229, 129, 57]]
   \<and> written (snd (create F [''A''] [[229, 129, 57]] (Node True feat (ClassIndex 0) gi cnts l r)
                     \<lparr>written = w, random = g\<rparr> (Suc k)))
     = w @ [NodeStmt (fst (node_id 20 digits g)) ''A'' ''#e58139'']
   \<and> node_to_str F [''A''] (Node True feat (ClassIndex 0) gi cnts l r) = py_get [''A''] 0
   \<and> py_get [''A''] 0 = Inr ''A''
   \<and> edge_labels (Node True feat (ClassIndex 0) gi cnts l r) = []"
proof -
  let ?leaf = "Node True feat (ClassIndex 0) gi cnts l r"
  have p: "py_get [''A''] 0 = Inr ''A''" "py_get [[229, 129, 57]] 0 = Inr [229::int, 129, 57]"
    by (simp_all add: py_get_def)
  note c = create_leaf[OF p leaf_color_A]
  have b: "color_brew (int (length [''A''])) = Inr [[229, 129, 57]]"
    using color_brew_1 by simp
  have r: "fst (create_graph_py ?leaf F [''A''] None g fs (Suc k)) =
     Inr (getvalue_text
           [Text ''digraph Tree {\<newline>'',
            Text ''node [shape=\"box\", style=\"filled, rounded\", color=\"black\"];\<newline>'',
            NodeStmt (fst (node_id 20 digits g)) ''A'' ''#e58139'',
            Text ''}''])"
    unfolding create_graph_py_StringIO[OF b] c by simp
  have t: "getvalue_text
           [Text ''digraph Tree {\<newline>'',
            Text ''node [shape=\"box\", style=\"filled, rounded\", color=\"black\"];\<newline>'',
            NodeStmt (fst (node_id 20 digits g)) ''A'' ''#e58139'',
            Text ''}'']
        = ''digraph Tree {\<newline>node [shape=\"box\", style=\"filled, rounded\", color=\"black\"];\<newline>''
          @ fst (node_id 20 digits g) @ '' [label=\"A\", fillcolor=\"#e58139\"];\<newline>}''"
    by (simp add: getvalue_text_def)
  have w: "written (snd (create F [''A''] [[229, 129, 57]] ?leaf \<lparr>written = w, random = g\<rparr> (Suc k)))
     = w @ [NodeStmt (fst (node_id 20 digits g)) ''A'' ''#e58139'']"
    unfolding c by simp
  have n: "node_to_str F [''A''] ?leaf = py_get [''A''] 0" by (simp add: node_to_str_def)
  have e: "edge_labels ?leaf = []" by simp
  from r t b w n p(1) e show ?thesis by (simp only:)
qed


text \<open>
  Claim C1. With an output file, \<open>create_graph\<close> never returns the text: whatever the
  tree and the name tables, the result is an exception. For a single leaf and the path
  \<open>tree.dot\<close> the exception is the AttributeError of \<^verbatim>\<open>fp.getvalue()\<close>, raised after
  the complete text has been written to the file; the same call without an output file
  returns that text.
\<close>

theorem create_graph_output_file_raises:
  "isl (fst (create_graph_py tree F C (Some path) g fs k))
   \<and> fst (create_graph_py (Node True 0 (ClassIndex 0) (Finite 0) [(0, 5)] None None) [] [''A'']
            (Some ''tree.dot'') (\<lambda>i. 7) (\<lambda>p. NoFile) 1000) = Inl AttributeError
   \<and> snd (snd (create_graph_py (Node True 0 (ClassIndex 0) (Finite 0) [(0, 5)] None None) [] [''A'']
            (Some ''tree.dot'') (\<lambda>i. 7) (\<lambda>p. NoFile) 1000)) ''tree.dot''
     = File (''digraph Tree {\<newline>node [shape=\"box\", style=\"filled, rounded\", color=\"black\"];\<newline>''
             @ ''77777777777777777777 [label=\"A\", fillcolor=\"#e58139\"];\<newline>}'')
   \<and> fst (create_graph_py (Node True 0 (ClassIndex 0) (Finite 0) [(0, 5)] None None) [] [''A'']
            None (\<lambda>i. 7) (\<lambda>p. NoFile) 1000)
     = Inr (''digraph Tree {\<newline>node [shape=\"box\", style=\"filled, rounded\", color=\"black\"];\<newline>''
             @ ''77777777777777777777 [label=\"A\", fillcolor=\"#e58139\"];\<newline>}'')"
proof -
  let ?leaf = "Node True 0 (ClassIndex 0) (Finite 0) [(0, 5)] None None"
  let ?fs = "\<lambda>p :: string. NoFile"
  have p: "py_get [''A''] 0 = Inr ''A''" "py_get [[229, 129, 57]] 0 = Inr [229::int, 129, 57]"
    by (simp_all add: py_get_def)
  note c = create_leaf[OF p leaf_color_A]
  have b: "color_brew (int (length [''A''])) = Inr [[229, 129, 57]]"
    using color_brew_1 by simp
  have u: "fst (node_id 20 digits (\<lambda>i. 7)) = ''77777777777777777777''"
    by code_simp
  have nw: "?fs ''tree.dot'' \<noteq> NotWritable" by simp
  have d: "(1000::nat) = Suc 999" by simp
  have f: "create_graph_py ?leaf [] [''A''] (Some ''tree.dot'') (\<lambda>i. 7) ?fs 1000 =
      (Inl AttributeError, snd (node_id 20 digits (\<lambda>i. 7)),
       ?fs(''tree.dot'' := File (getvalue_text
           [Text ''digraph Tree {\<newline>'',
            Text ''node [shape=\"box\", style=\"filled, rounded\", color=\"black\"];\<newline>'',
            NodeStmt ''77777777777777777777'' ''A'' ''#e58139'',
            Text ''}''])))"
    unfolding create_graph_py_file[where fs = ?fs and path = "''tree.dot''", OF b nw] d c by (simp add: u)
  have n: "create_graph_py ?leaf [] [''A''] None (\<lambda>i. 7) ?fs 1000 =
      (Inr (getvalue_text
           [Text ''digraph Tree {\<newline>'',
            Text ''node [shape=\"box\", style=\"filled, rounded\", color=\"black\"];\<newline>'',
            NodeStmt ''77777777777777777777'' ''A'' ''#e58139'',
            Text ''}'']), snd (node_id 20 digits (\<lambda>i. 7)), ?fs)"
    unfolding create_graph_py_StringIO[OF b] d c by (simp add: u)
  have t: "getvalue_text
           [Text ''digraph Tree {\<newline>'',
            Text ''node [shape=\"box\", style=\"filled, rounded\", color=\"black\"];\<newline>'',
            NodeStmt ''77777777777777777777'' ''A'' ''#e58139'',
            Text ''}'']
        = ''digraph Tree {\<newline>node [shape=\"box\", style=\"filled, rounded\", color=\"black\"];\<newline>''
          @ ''77777777777777777777 [label=\"A\", fillcolor=\"#e58139\"];\<newline>}''"
    by (simp add: getvalue_text_def)
  show ?thesis
    unfolding f n t using create_graph_py_never_returns[of tree F C path g fs k] by simp
qed

text \<open>
  Claim C3. Two runs of \<open>create\<close> on the same tree, name tables and palette, started
  with the same text written, under the same bound on the depth of calls and with any two
  states of the random generator, write node
  statements with the same labels and fill colours in the same order; the statements
  written differ in the identifiers only, and both runs return or raise the same
  exception. The palette is \<open>color_brew\<close> of the number of class names, which draws no
  random number.
\<close>

theorem create_labels_colors_deterministic:
  "labels_colors (written (snd (create F C P node \<lparr>written = w, random = g1\<rparr> k)))
     = labels_colors (written (snd (create F C P node \<lparr>written = w, random = g2\<rparr> k)))
   \<and> map erase_uid (written (snd (create F C P node \<lparr>written = w, random = g1\<rparr> k)))
     = map erase_uid (written (snd (create F C P node \<lparr>written = w, random = g2\<rparr> k)))
   \<and> map_sum id (\<lambda>_. ()) (fst (create F C P node \<lparr>written = w, random = g1\<rparr> k))
     = map_sum id (\<lambda>_. ()) (fst (create F C P node \<lparr>written = w, random = g2\<rparr> k))"
proof -
  define r1 where "r1 = create F C P node \<lparr>written = w, random = g1\<rparr> k"
  define r2 where "r2 = create F C P node \<lparr>written = w, random = g2\<rparr> k"
  have "same_outcome r1 r2"
    unfolding r1_def r2_def by (rule create_same_outcome) simp
  then have e: "map erase_uid (written (snd r1)) = map erase_uid (written (snd r2))"
    and x: "map_sum id (\<lambda>_. ()) (fst r1) = map_sum id (\<lambda>_. ()) (fst r2)"
    by (simp_all add: same_outcome_def)
  have "labels_colors (map erase_uid (written (snd r1))) = labels_colors (map erase_uid (written (snd r2)))"
    using e by simp
  then have l: "labels_colors (written (snd r1)) = labels_colors (written (snd r2))"
    by (simp only: labels_colors_erase)
  from l e x show ?thesis unfolding r1_def r2_def by (simp only:)
qed

end
